theory Spec2Isabelle
  imports Main
begin

section \<open>JavaScript strings and values\<close>

text \<open>
  A JavaScript string is a sequence of UTF-16 code units; it is modelled as the list of
  their values.  Every character that the client's literals use lies in the Basic
  Multilingual Plane, so each is one code unit.  \<open>js\<close> embeds an ASCII literal.

  A property of a parsed JSON object that the client reads as text is a
  \<open>jsstring option\<close>: \<open>None\<close> stands for an absent property (\<open>undefined\<close>) and
  for \<open>null\<close>, which the client's code never tells apart.  The event payloads of the
  wire protocol carry strings in the properties the client reads; payloads of another
  shape are outside this model.
\<close>

type_synonym jsstring = "nat list"

definition js :: "string \<Rightarrow> jsstring" where
  "js s = map of_char s"

text \<open>\<open>a || b\<close> on optional strings: the empty string and \<open>undefined\<close> are falsy.\<close>

fun truthy :: "jsstring option \<Rightarrow> bool" where
  "truthy None = False"
| "truthy (Some v) = (v \<noteq> [])"

definition js_or :: "jsstring option \<Rightarrow> jsstring option \<Rightarrow> jsstring option" where
  "js_or a b = (if truthy a then a else b)"

text \<open>\<open>a || 'literal'\<close>: the right operand is a string, so the result is one.\<close>

definition str_or :: "jsstring option \<Rightarrow> jsstring \<Rightarrow> jsstring" where
  "str_or a dflt = (case a of None \<Rightarrow> dflt | Some v \<Rightarrow> if v \<noteq> [] then v else dflt)"

text \<open>\<open>String.prototype.startsWith\<close> and \<open>String.prototype.includes\<close>.\<close>

fun startsWith :: "jsstring \<Rightarrow> jsstring \<Rightarrow> bool" where
  "startsWith s [] = True"
| "startsWith [] (p # ps) = False"
| "startsWith (c # cs) (p # ps) = (c = p \<and> startsWith cs ps)"

fun str_includes :: "jsstring \<Rightarrow> jsstring \<Rightarrow> bool" where
  "str_includes [] t = (t = [])"
| "str_includes (c # cs) t = (startsWith (c # cs) t \<or> str_includes cs t)"

text \<open>
  \<open>String.prototype.trim\<close> removes the code units of ECMAScript's WhiteSpace and
  LineTerminator productions from both ends.
\<close>

definition is_space :: "nat \<Rightarrow> bool" where
  "is_space c = (c \<in> set [9, 10, 11, 12, 13, 32, 160, 5760, 8192, 8193, 8194, 8195, 8196,
     8197, 8198, 8199, 8200, 8201, 8202, 8232, 8233, 8239, 8287, 12288, 65279])"

definition trim :: "jsstring \<Rightarrow> jsstring" where
  "trim s = rev (dropWhile is_space (rev (dropWhile is_space s)))"

section \<open>The client store (Pinia store \<open>housing\<close>)\<close>

text \<open>
  The state of the store, with the fields that the modelled actions read or write.
  The \<open>id\<close> and \<open>timestamp\<close> that \<open>addMessage\<close> and the tool-call entries take from
  the clock and the random generator are left out, as are \<open>userProfile\<close>, \<open>reportUrl\<close>,
  \<open>shareUrl\<close> and \<open>currentSessionInfo\<close>, which none of these actions touches.
\<close>

datatype role = User | Assistant

record message =
  msg_role :: role
  msg_content :: "jsstring option"

datatype step = StepInput | StepChat | StepResult

datatype tool_status = Running | Completed

record tool_entry =
  tc_tool_name :: jsstring
  tc_status :: tool_status
  tc_message :: jsstring

record report =
  report_content :: jsstring
  report_conversationId :: "jsstring option"

record session_summary =
  sess_conversation_id :: jsstring
  sess_message_count :: nat

record store =
  userInput :: jsstring
  conversationHistory :: "message list"
  currentStep :: step
  isStreaming :: bool
  streamingMessage :: jsstring
  currentToolCalls :: "tool_entry list"
  streamingProgress :: jsstring
  reportData :: "report option"
  loading :: bool
  error :: "jsstring option"
  conversationId :: "jsstring option"
  sessions :: "session_summary list"

text \<open>
  The payload of a stream event: the properties that \<open>handleStreamEvent\<close> reads, and
  \<open>status\<close>, which the wire protocol puts on \<open>done\<close> and which the handler never reads.
\<close>

record data =
  d_content :: "jsstring option"
  d_message :: "jsstring option"
  d_response :: "jsstring option"
  d_tool_name :: "jsstring option"
  d_error :: "jsstring option"
  d_conversation_id :: "jsstring option"
  d_status :: "jsstring option"

text \<open>
  An exception object: its message, and \<open>error.response?.data?.detail\<close>, which
  \<open>handleError\<close> reads.
\<close>

record js_error =
  err_message :: jsstring
  err_detail :: "jsstring option"

text \<open>
  The result of a store action that may throw: the state it returned with, or the state
  at the moment of the throw (assignments made before the throw stay).
\<close>

datatype outcome = Returned store | Thrown store

fun state_of :: "outcome \<Rightarrow> store" where
  "state_of (Returned s) = s"
| "state_of (Thrown s) = s"

subsection \<open>Literals of the store\<close>

definition tool_default :: jsstring where
  "tool_default = [24037, 20855]"

definition calling_prefix :: jsstring where
  "calling_prefix = [27491, 22312, 35843, 29992, 32]"

definition finished_suffix :: jsstring where
  "finished_suffix = [32, 25191, 34892, 23436, 25104]"

definition thinking_text :: jsstring where
  "thinking_text = [27491, 22312, 24605, 32771, 46, 46, 46]"

definition generating_text :: jsstring where
  "generating_text = [27491, 22312, 29983, 25104, 22238, 22797, 46, 46, 46]"

definition stream_error_text :: jsstring where
  "stream_error_text = [27969, 24335, 21709, 24212, 38169, 35823]"

definition send_failed_text :: jsstring where
  "send_failed_text = [21457, 36865, 28040, 24687, 22833, 36133]"

definition send_stream_failed_text :: jsstring where
  "send_stream_failed_text = [21457, 36865, 27969, 24335, 28040, 24687, 22833, 36133]"

definition reset_failed_text :: jsstring where
  "reset_failed_text = [37325, 32622, 20250, 35805, 22833, 36133]"

definition reset_all_failed_text :: jsstring where
  "reset_all_failed_text = [37325, 32622, 25152, 26377, 20250, 35805, 22833, 36133]"

definition marker_report :: jsstring where
  "marker_report = [36141, 25151, 36164, 37329, 26041, 26696, 25253, 21578]"

definition marker_total_cost :: jsstring where
  "marker_total_cost = [24635, 25104, 26412, 27010, 35272]"

definition marker_monthly :: jsstring where
  "marker_monthly = [26376, 20379, 21387, 21147, 20998, 26512]"

subsection \<open>Helper actions\<close>

definition addMessage :: "role \<Rightarrow> jsstring option \<Rightarrow> store \<Rightarrow> store" where
  "addMessage r c s =
     s\<lparr>conversationHistory := conversationHistory s @ [\<lparr>msg_role = r, msg_content = c\<rparr>]\<rparr>"

definition handleError :: "jsstring \<Rightarrow> js_error \<Rightarrow> store \<Rightarrow> store" where
  "handleError m e s =
     (if truthy (err_detail e)
      then s\<lparr>error := Some (m @ js '': '' @ the (err_detail e))\<rparr>
      else s\<lparr>error := Some m\<rparr>)"

text \<open>\<open>new Error(x)\<close>: no \<open>response\<close> property; an undefined message becomes empty.\<close>

definition new_Error :: "jsstring option \<Rightarrow> js_error" where
  "new_Error m = \<lparr>err_message = (case m of None \<Rightarrow> [] | Some v \<Rightarrow> v), err_detail = None\<rparr>"

text \<open>
  \<open>isReportResponse\<close> calls \<open>message.includes\<close>; on \<open>undefined\<close> that is a
  TypeError, the value \<open>None\<close> here.
\<close>

definition isReportResponse :: "jsstring option \<Rightarrow> bool option" where
  "isReportResponse m =
     (case m of
        None \<Rightarrow> None
      | Some t \<Rightarrow> Some (str_includes t marker_report \<or> str_includes t marker_total_cost
                        \<or> str_includes t marker_monthly))"

definition initializeSession :: "store \<Rightarrow> store" where
  "initializeSession s = s\<lparr>conversationId := None, conversationHistory := [], currentStep := StepInput\<rparr>"

subsection \<open>\<open>handleStreamEvent\<close>\<close>

text \<open>
  The \<open>tool_result\<close> branch looks up the first running entry of that tool name with
  \<open>Array.prototype.find\<close> and updates it in place; with no such entry the list stays.
\<close>

fun mark_completed :: "jsstring \<Rightarrow> jsstring \<Rightarrow> tool_entry list \<Rightarrow> tool_entry list" where
  "mark_completed n m [] = []"
| "mark_completed n m (t # ts) =
     (if tc_tool_name t = n \<and> tc_status t = Running
      then t\<lparr>tc_status := Completed, tc_message := m\<rparr> # ts
      else t # mark_completed n m ts)"

definition find_running :: "jsstring \<Rightarrow> tool_entry list \<Rightarrow> tool_entry option" where
  "find_running n ts = find (\<lambda>t. tc_tool_name t = n \<and> tc_status t = Running) ts"

text \<open>
  The branch of \<open>handleStreamEvent\<close> for \<open>complete\<close> and \<open>done\<close>: it takes the
  conversation id, records the assistant message, looks for a report, and then clears
  the streaming state.  The call of \<open>isReportResponse\<close> comes after \<open>addMessage\<close> and
  before the clean-up, so an exception there leaves the first done and the second undone.
\<close>

definition handle_done :: "data \<Rightarrow> store \<Rightarrow> outcome" where
  "handle_done d s =
     (let s1 = (if truthy (d_conversation_id d) then s\<lparr>conversationId := d_conversation_id d\<rparr> else s);
          fullMessage = js_or (js_or (Some (streamingMessage s1)) (d_response d)) (d_message d);
          s2 = addMessage Assistant fullMessage s1
      in case isReportResponse fullMessage of
           None \<Rightarrow> Thrown s2
         | Some isReport \<Rightarrow>
             (let s3 = (if isReport
                        then s2\<lparr>reportData := Some \<lparr>report_content = the fullMessage,
                                                     report_conversationId = d_conversation_id d\<rparr>,
                                currentStep := StepResult\<rparr>
                        else s2)
              in Returned (s3\<lparr>streamingMessage := [], streamingProgress := [],
                              currentToolCalls := []\<rparr>)))"

definition handleStreamEvent :: "jsstring \<Rightarrow> data \<Rightarrow> store \<Rightarrow> outcome" where
  "handleStreamEvent eventType d s =
     (if eventType = js ''message'' \<or> eventType = js ''response_chunk'' then
        Returned (s\<lparr>streamingMessage :=
                      streamingMessage s @ str_or (js_or (d_content d) (d_message d)) []\<rparr>)
      else if eventType = js ''tool_call'' then
        (let toolName = str_or (d_tool_name d) tool_default;
             toolMessage = str_or (d_message d) (calling_prefix @ toolName @ js ''...'')
         in Returned (s\<lparr>currentToolCalls := currentToolCalls s @
                           [\<lparr>tc_tool_name = toolName, tc_status = Running, tc_message = toolMessage\<rparr>],
                         streamingProgress := toolMessage\<rparr>))
      else if eventType = js ''tool_result'' then
        (let resultToolName = str_or (d_tool_name d) tool_default;
             resultMessage = str_or (d_message d) (resultToolName @ finished_suffix)
         in Returned (s\<lparr>currentToolCalls :=
                           (case find_running resultToolName (currentToolCalls s) of
                              None \<Rightarrow> currentToolCalls s
                            | Some runningTool \<Rightarrow>
                                mark_completed resultToolName resultMessage (currentToolCalls s)),
                         streamingProgress := resultMessage\<rparr>))
      else if eventType = js ''thinking'' then
        Returned (s\<lparr>streamingProgress := str_or (d_message d) thinking_text\<rparr>)
      else if eventType = js ''response_start'' then
        Returned (s\<lparr>streamingProgress := generating_text\<rparr>)
      else if eventType = js ''response_end'' then
        Returned (s\<lparr>streamingProgress := []\<rparr>)
      else if eventType = js ''error'' then
        Returned (handleError stream_error_text (new_Error (js_or (d_error d) (d_message d))) s)
      else if eventType = js ''complete'' \<or> eventType = js ''done'' then
        handle_done d s
      else Returned s)"

subsection \<open>The initial state\<close>

text \<open>The state that the store's \<open>state\<close> function returns.\<close>

definition initial_store :: store where
  "initial_store =
     \<lparr>userInput = [], conversationHistory = [], currentStep = StepInput, isStreaming = False,
      streamingMessage = [], currentToolCalls = [], streamingProgress = [], reportData = None,
      loading = False, error = None, conversationId = None, sessions = []\<rparr>"

section \<open>The API client (class \<open>HousingAPI\<close>)\<close>

subsection \<open>Chat requests\<close>

text \<open>
  The JSON body that \<open>sendChatMessage\<close> and \<open>sendChatMessageStream\<close> post to
  \<open>/chat\<close>.  The parameter \<open>maxIterations\<close> is \<open>None\<close> when the caller passes no
  value (\<open>undefined\<close>), which is when JavaScript takes the default of the signature.
\<close>

record chat_request =
  rq_message :: jsstring
  rq_stream :: bool
  rq_conversation_id :: "jsstring option"
  rq_max_iterations :: int

definition default_param :: "'a option \<Rightarrow> 'a \<Rightarrow> 'a" where
  "default_param arg dflt = (case arg of None \<Rightarrow> dflt | Some v \<Rightarrow> v)"

definition sendChatMessage_request :: "jsstring \<Rightarrow> jsstring option \<Rightarrow> int option \<Rightarrow> chat_request" where
  "sendChatMessage_request msg convId maxIterations =
     \<lparr>rq_message = msg, rq_stream = False, rq_conversation_id = convId,
      rq_max_iterations = default_param maxIterations 15\<rparr>"

definition sendChatMessageStream_request :: "jsstring \<Rightarrow> jsstring option \<Rightarrow> int option \<Rightarrow> chat_request" where
  "sendChatMessageStream_request msg convId maxIterations =
     \<lparr>rq_message = msg, rq_stream = True, rq_conversation_id = convId,
      rq_max_iterations = default_param maxIterations 15\<rparr>"

text \<open>\<open>generateHousingSolution\<close> forwards \<open>options.maxIterations\<close>, absent or not.\<close>

definition generateHousingSolution_request :: "jsstring \<Rightarrow> jsstring option \<Rightarrow> int option \<Rightarrow> chat_request" where
  "generateHousingSolution_request txt optConversationId optMaxIterations =
     sendChatMessage_request txt optConversationId optMaxIterations"

subsection \<open>Session requests\<close>

text \<open>
  The requests of \<open>resetSession\<close> and \<open>resetAllSessions\<close>, both \<open>POST /reset\<close> through
  axios: \<open>apiClient.post(url, data)\<close> sends \<open>data\<close> as the JSON body and adds nothing to
  the query string; without \<open>data\<close> there is no body.
\<close>

record http_request =
  hr_path :: jsstring
  hr_query :: "(jsstring \<times> jsstring) list"
  hr_body :: "(jsstring \<times> jsstring) list option"

definition resetSession_request :: "jsstring \<Rightarrow> http_request" where
  "resetSession_request convId =
     \<lparr>hr_path = js ''/reset'', hr_query = [], hr_body = Some [(js ''conversation_id'', convId)]\<rparr>"

definition resetAllSessions_request :: http_request where
  "resetAllSessions_request = \<lparr>hr_path = js ''/reset'', hr_query = [], hr_body = None\<rparr>"

subsection \<open>The event-stream reader of \<open>sendChatMessageStream\<close>\<close>

text \<open>
  The reader yields chunks of bytes, which a \<open>TextDecoder\<close> in streaming mode turns
  into pieces of text: the decoder keeps an incomplete multi-byte sequence for the next
  call, so the pieces concatenate to the decoded stream however the bytes were cut.  The
  model starts from these pieces.  \<open>JSON.parse\<close> is the parameter \<open>parse\<close>, with
  \<open>None\<close> for a SyntaxError.

  \<open>split_nl\<close> is \<open>split('\n')\<close>, which returns at least one piece.
\<close>

fun split_nl :: "jsstring \<Rightarrow> jsstring list" where
  "split_nl [] = [[]]"
| "split_nl (c # cs) =
     (if c = 10 then [] # split_nl cs
      else (case split_nl cs of [] \<Rightarrow> [[c]] | l # ls \<Rightarrow> (c # l) # ls))"

text \<open>
  One turn of the \<open>for\<close> loop: the new \<open>currentEvent\<close> and the callback invocation made,
  if any.  An exception of \<open>JSON.parse\<close> or of the callback is caught by the same
  \<open>try\<close> and only logged, so it changes neither \<open>currentEvent\<close> nor the loop.
\<close>

definition process_line ::
  "(jsstring \<Rightarrow> 'd option) \<Rightarrow> jsstring option \<Rightarrow> jsstring \<Rightarrow> jsstring option \<times> (jsstring \<times> 'd) list" where
  "process_line parse currentEvent line =
     (let trimmedLine = trim line in
      if startsWith trimmedLine (js ''event: '') then (Some (drop 7 trimmedLine), [])
      else if startsWith trimmedLine (js ''data: '') then
        (if truthy currentEvent then
           (case parse (drop 6 trimmedLine) of
              None \<Rightarrow> (currentEvent, [])
            | Some d \<Rightarrow> (currentEvent, [(the currentEvent, d)]))
         else (currentEvent, []))
      else if trimmedLine = [] then (None, [])
      else (currentEvent, []))"

fun process_lines ::
  "(jsstring \<Rightarrow> 'd option) \<Rightarrow> jsstring option \<Rightarrow> jsstring list \<Rightarrow> jsstring option \<times> (jsstring \<times> 'd) list" where
  "process_lines parse currentEvent [] = (currentEvent, [])"
| "process_lines parse currentEvent (line # rest) =
     (let (ev, calls) = process_line parse currentEvent line;
          (ev', calls') = process_lines parse ev rest
      in (ev', calls @ calls'))"

text \<open>
  The \<open>while\<close> loop over the chunks, from a buffer and a current event: the callback
  invocations in order.  What is left in the buffer when the stream ends is dropped.
\<close>

fun read_loop ::
  "(jsstring \<Rightarrow> 'd option) \<Rightarrow> jsstring \<Rightarrow> jsstring option \<Rightarrow> jsstring list \<Rightarrow> (jsstring \<times> 'd) list" where
  "read_loop parse buffer currentEvent [] = []"
| "read_loop parse buffer currentEvent (chunk # chunks) =
     (let lines = split_nl (buffer @ chunk);
          (ev, calls) = process_lines parse currentEvent (butlast lines)
      in calls @ read_loop parse (last lines) ev chunks)"

definition sse_callbacks :: "(jsstring \<Rightarrow> 'd option) \<Rightarrow> jsstring list \<Rightarrow> (jsstring \<times> 'd) list" where
  "sse_callbacks parse chunks = read_loop parse [] None chunks"

text \<open>
  What a call of \<open>sendChatMessageStream\<close> does as seen by its caller: the text pieces
  read before the stream ended, and the exception it ended with, if any (a failed
  \<open>fetch\<close>, a response that is not \<open>ok\<close>, or a failed \<open>read\<close>).
\<close>

record stream_result =
  sr_chunks :: "jsstring list"
  sr_failure :: "js_error option"

text \<open>
  The non-streaming call resolves with the response body or rejects with the error of
  the response interceptor.
\<close>

record chat_response =
  r_response :: "jsstring option"
  r_message :: "jsstring option"
  r_conversation_id :: "jsstring option"

datatype api_result = Resolved chat_response | Rejected js_error

section \<open>Sending a message (store actions)\<close>

text \<open>The \<open>catch\<close> block shared by \<open>sendMessage\<close> and \<open>sendMessageStream\<close>.\<close>

definition send_catch :: "jsstring \<Rightarrow> js_error \<Rightarrow> store \<Rightarrow> store" where
  "send_catch m e s =
     (let s1 = handleError m e s;
          s2 = (if length (conversationHistory s1) > 0
                   \<and> msg_role (last (conversationHistory s1)) = User
                then s1\<lparr>conversationHistory := butlast (conversationHistory s1)\<rparr>
                else s1)
      in s2\<lparr>currentStep := StepInput\<rparr>)"

text \<open>The TypeError of a property read on \<open>undefined\<close>: an error without \<open>response\<close>.\<close>

definition TypeError :: js_error where
  "TypeError = \<lparr>err_message = js ''TypeError'', err_detail = None\<rparr>"

definition sendMessage :: "jsstring \<Rightarrow> (chat_request \<Rightarrow> api_result) \<Rightarrow> store \<Rightarrow> store" where
  "sendMessage input api s =
     (if trim input = [] then s
      else
        (let s0 = s\<lparr>loading := True, error := None, userInput := input\<rparr>;
             s1 = (addMessage User (Some input) s0)\<lparr>currentStep := StepChat\<rparr>;
             s' = (case api (sendChatMessage_request input (conversationId s1) None) of
                     Rejected e \<Rightarrow> send_catch send_failed_text e s1
                   | Resolved r \<Rightarrow>
                       (let s2 = (if truthy (r_conversation_id r)
                                  then s1\<lparr>conversationId := r_conversation_id r\<rparr> else s1);
                            reply = js_or (r_response r) (r_message r);
                            s3 = addMessage Assistant reply s2
                        in case isReportResponse reply of
                             None \<Rightarrow> send_catch send_failed_text TypeError s3
                           | Some isReport \<Rightarrow>
                               (if isReport
                                then s3\<lparr>reportData := Some \<lparr>report_content = the reply,
                                                             report_conversationId = r_conversation_id r\<rparr>,
                                        currentStep := StepResult\<rparr>
                                else s3)))
         in s'\<lparr>loading := False\<rparr>))"

text \<open>
  The callback that \<open>sendMessageStream\<close> passes runs \<open>handleStreamEvent\<close> inside the
  reader's \<open>try\<close>: an exception of the handler ends that call and is logged there.
\<close>

definition deliver :: "store \<Rightarrow> jsstring \<times> data \<Rightarrow> store" where
  "deliver s call = state_of (handleStreamEvent (fst call) (snd call) s)"

definition sendMessageStream ::
  "jsstring \<Rightarrow> (jsstring \<Rightarrow> data option) \<Rightarrow> (chat_request \<Rightarrow> stream_result) \<Rightarrow> store \<Rightarrow> store" where
  "sendMessageStream input parse fetch s =
     (if trim input = [] then s
      else
        (let s0 = s\<lparr>isStreaming := True, error := None, userInput := input, streamingMessage := [],
                    streamingProgress := [], currentToolCalls := []\<rparr>;
             s1 = (addMessage User (Some input) s0)\<lparr>currentStep := StepChat\<rparr>;
             res = fetch (sendChatMessageStream_request input (conversationId s1) None);
             s2 = foldl deliver s1 (sse_callbacks parse (sr_chunks res));
             s' = (case sr_failure res of
                     None \<Rightarrow> s2
                   | Some e \<Rightarrow> send_catch send_stream_failed_text e s2)
         in s'\<lparr>isStreaming := False\<rparr>))"


section \<open>Resetting sessions (store actions)\<close>

text \<open>
  \<open>post\<close> is the backend as the store sees it: \<open>None\<close> when the request resolves, the
  error when it rejects.  \<open>resetCurrentSession\<close> returns at once when the store has no
  conversation id.
\<close>

definition resetCurrentSession :: "(http_request \<Rightarrow> js_error option) \<Rightarrow> store \<Rightarrow> store" where
  "resetCurrentSession post s =
     (if \<not> truthy (conversationId s) then s
      else (case post (resetSession_request (the (conversationId s))) of
              None \<Rightarrow> initializeSession s
            | Some e \<Rightarrow> handleError reset_failed_text e s))"

definition resetAllSessions :: "(http_request \<Rightarrow> js_error option) \<Rightarrow> store \<Rightarrow> store" where
  "resetAllSessions post s =
     (case post resetAllSessions_request of
        None \<Rightarrow> (initializeSession s)\<lparr>sessions := []\<rparr>
      | Some e \<Rightarrow> handleError reset_all_failed_text e s)"

section \<open>The server side: agent loop, event encoder, session store\<close>

text \<open>
  The backend (the agent loop, its event encoder and its session store) is not among the
  sources at hand; only its callers and its API documentation are.  The definitions of
  this section follow the specification.
\<close>

subsection \<open>Data model\<close>

text \<open>
  Modelled from the spec: the ToolCallRequest of the missing agent loop's data model: an
  id, the tool name and the argument payload, kept as text.
\<close>

record tool_request =
  tr_id :: nat
  tr_name :: jsstring
  tr_args :: jsstring

text \<open>
  Modelled from the spec: the ToolCallOutcome of the missing loop: a result payload or an
  error descriptor, both kept as text.
\<close>

datatype tool_outcome = ToolSuccess jsstring | ToolFailure jsstring

text \<open>
  Modelled from the spec: the Message of the missing loop's conversation: a user
  message, an assistant text, or the outcome of the tool request with the given id.
\<close>

datatype conv_message =
    UserMessage jsstring
  | AssistantMessage jsstring
  | ToolResultMessage nat tool_outcome

text \<open>Modelled from the spec: the status of a Conversation of the missing loop.\<close>

datatype conv_status = ConvActive | ConvCompleted | ConvFailed

text \<open>
  Modelled from the spec: the Conversation of the missing loop: its messages, its
  iteration counter and its status (the timestamps are left out).
\<close>

record conversation =
  conv_messages :: "conv_message list"
  conv_iterations :: nat
  conv_status :: conv_status

text \<open>
  Modelled from the spec: the answer of the missing Model Gateway, after the loop's
  bounded retries.  A final text comes as its ordered fragments (one fragment from a
  non-streaming gateway); a failure is one that the retries did not cure.
\<close>

datatype model_response =
    FinalText "jsstring list"
  | ToolCallsRequested "tool_request list"
  | GatewayFailed jsstring

text \<open>Modelled from the spec: the reasons for which the missing loop ends in Failed.\<close>

datatype failure = IterationLimitExceeded | GatewayError jsstring

text \<open>Modelled from the spec: the status that a \<open>done\<close> event of the missing loop carries.\<close>

datatype done_status = StatusSuccess | StatusError

text \<open>
  Modelled from the spec: the events that the missing loop emits; \<open>done\<close> carries the
  final status and the iteration count.
\<close>

datatype event =
    Thinking
  | ToolCall tool_request
  | ToolResult tool_request tool_outcome
  | ResponseStart nat
  | ResponseChunk jsstring
  | ResponseEnd jsstring
  | Done done_status nat
  | Error failure

text \<open>
  Modelled from the spec: what one turn of the missing loop leaves behind: the
  conversation, the events in emission order, the turn's iteration counter, the final
  text of a completed turn and the failure of a failed one.
\<close>

record turn_result =
  res_conversation :: conversation
  res_events :: "event list"
  res_iterations :: nat
  res_text :: "jsstring option"
  res_failure :: "failure option"

subsection \<open>The agent loop\<close>

text \<open>
  Modelled from the spec: step 4 of the missing loop.  The final text is the
  concatenation of its fragments; the loop emits \<open>response_start\<close>, one
  \<open>response_chunk\<close> per fragment, \<open>response_end\<close> with the assembled text, appends the
  Assistant message, and emits \<open>done\<close> with the iteration count.
\<close>

definition finish_turn :: "conversation \<Rightarrow> nat \<Rightarrow> jsstring list \<Rightarrow> turn_result" where
  "finish_turn conv n frags =
     \<lparr>res_conversation = conv\<lparr>conv_messages := conv_messages conv @ [AssistantMessage (concat frags)],
                               conv_iterations := Suc (conv_iterations conv),
                               conv_status := ConvCompleted\<rparr>,
      res_events = [Thinking, ResponseStart n] @ map ResponseChunk frags
                     @ [ResponseEnd (concat frags), Done StatusSuccess n],
      res_iterations = n,
      res_text = Some (concat frags),
      res_failure = None\<rparr>"

text \<open>
  Modelled from the spec: the terminal event of a failed turn of the missing loop.  A
  failure of the gateway is an unrecoverable error: the loop emits \<open>error\<close> with a
  description (step 5).  The iteration limit is a designed terminal state (section 7):
  the turn ends with \<open>done\<close> of status \<open>"error"\<close> and the iteration count (scenario D).
\<close>

fun failure_event :: "failure \<Rightarrow> nat \<Rightarrow> event" where
  "failure_event IterationLimitExceeded n = Done StatusError n"
| "failure_event (GatewayError e) n = Error (GatewayError e)"

text \<open>
  Modelled from the spec: the transition of the missing loop to Failed, which emits the
  terminal event of the failure and stops.  \<open>evs\<close> are the events of the current round
  emitted so far.
\<close>

definition fail_turn :: "conversation \<Rightarrow> nat \<Rightarrow> event list \<Rightarrow> failure \<Rightarrow> turn_result" where
  "fail_turn conv n evs f =
     \<lparr>res_conversation = conv\<lparr>conv_status := ConvFailed\<rparr>,
      res_events = evs @ [failure_event f n],
      res_iterations = n,
      res_text = None,
      res_failure = Some f\<rparr>"

text \<open>Modelled from the spec: the events of a round are put before those of the later rounds.\<close>

definition emit_before :: "event list \<Rightarrow> turn_result \<Rightarrow> turn_result" where
  "emit_before evs r = r\<lparr>res_events := evs @ res_events r\<rparr>"

text \<open>
  Modelled from the spec: step 3 of the missing loop, the events of a round that calls
  tools: \<open>thinking\<close>, one \<open>tool_call\<close> per request in the order of the requests, then
  one \<open>tool_result\<close> per request in the same order.  \<open>invoke\<close> is the Tool Registry's
  \<open>invoke\<close>, which turns every tool error into an outcome.
\<close>

definition tool_round :: "(tool_request \<Rightarrow> tool_outcome) \<Rightarrow> tool_request list \<Rightarrow> event list" where
  "tool_round invoke reqs =
     [Thinking] @ map ToolCall reqs @ map (\<lambda>rq. ToolResult rq (invoke rq)) reqs"

text \<open>
  Modelled from the spec: step 3c of the missing loop: one ToolResult message per
  outcome is appended and the round trip is counted.
\<close>

definition append_results ::
  "(tool_request \<Rightarrow> tool_outcome) \<Rightarrow> tool_request list \<Rightarrow> conversation \<Rightarrow> conversation" where
  "append_results invoke reqs conv =
     conv\<lparr>conv_messages := conv_messages conv
                               @ map (\<lambda>rq. ToolResultMessage (tr_id rq) (invoke rq)) reqs,
          conv_iterations := Suc (conv_iterations conv)\<rparr>"

text \<open>
  Modelled from the spec: steps 2 to 5 of the missing agent loop (section 4.3), from a
  conversation and the number \<open>n\<close> of round trips this turn has completed.  \<open>gw\<close> is the
  Model Gateway.  Each round emits \<open>thinking\<close>, asks the gateway and counts the
  completed round trip.  A request for no tool at all is the final text \<open>""\<close>.  After a
  round of tools the loop goes back to the gateway unless one more round trip would take
  the counter past \<open>max_iterations\<close>: with \<open>max_iterations = 1\<close> and a gateway that
  always asks for a tool there is one pair of tool events and no second call of the
  gateway (scenario D of the specification).
\<close>

function agent_loop ::
  "(conv_message list \<Rightarrow> model_response) \<Rightarrow> (tool_request \<Rightarrow> tool_outcome) \<Rightarrow> nat
     \<Rightarrow> conversation \<Rightarrow> nat \<Rightarrow> turn_result" where
  "agent_loop gw invoke max_iterations conv n =
     (case gw (conv_messages conv) of
        GatewayFailed e \<Rightarrow> fail_turn conv n [Thinking] (GatewayError e)
      | FinalText frags \<Rightarrow> finish_turn conv (Suc n) frags
      | ToolCallsRequested reqs \<Rightarrow>
          (if reqs = [] then finish_turn conv (Suc n) [[]]
           else if max_iterations \<le> Suc n
           then fail_turn (append_results invoke reqs conv) (Suc n) (tool_round invoke reqs)
                  IterationLimitExceeded
           else emit_before (tool_round invoke reqs)
                  (agent_loop gw invoke max_iterations (append_results invoke reqs conv) (Suc n))))"
  by pat_completeness auto
termination
  by (relation "measure (\<lambda>(gw, invoke, max_iterations, conv, n). max_iterations - n)") auto

declare agent_loop.simps [simp del]

text \<open>
  Modelled from the spec: step 1 of the missing loop.  A turn appends the user message
  and starts its own count of round trips at 0.
\<close>

definition run_turn ::
  "(conv_message list \<Rightarrow> model_response) \<Rightarrow> (tool_request \<Rightarrow> tool_outcome) \<Rightarrow> nat
     \<Rightarrow> conversation \<Rightarrow> jsstring \<Rightarrow> turn_result" where
  "run_turn gw invoke max_iterations conv msg =
     agent_loop gw invoke max_iterations
       (conv\<lparr>conv_messages := conv_messages conv @ [UserMessage msg]\<rparr>) 0"

subsection \<open>Responses on the wire\<close>

text \<open>Modelled from the spec: the description that an \<open>error\<close> event or response carries.\<close>

fun describe :: "failure \<Rightarrow> jsstring" where
  "describe IterationLimitExceeded = js ''IterationLimitExceeded''"
| "describe (GatewayError e) = e"

text \<open>A payload without any of the properties that the client reads.\<close>

definition no_data :: data where
  "no_data = \<lparr>d_content = None, d_message = None, d_response = None, d_tool_name = None,
              d_error = None, d_conversation_id = None, d_status = None\<rparr>"

text \<open>Modelled from the spec: the text of the \<open>status\<close> property of a \<open>done\<close> event.\<close>

fun status_text :: "done_status \<Rightarrow> jsstring" where
  "status_text StatusSuccess = js ''success''"
| "status_text StatusError = js ''error''"

text \<open>
  Modelled from the spec: the missing Event Stream Encoder (sections 4.5 and 6): the
  event name and, of the payload, the properties \<open>content\<close>, \<open>message\<close>, \<open>tool_name\<close>,
  \<open>error\<close>, \<open>conversation_id\<close> and \<open>status\<close>.  \<open>cid\<close> is the conversation id and
  \<open>caption\<close> gives the human-readable \<open>message\<close> of an event.
\<close>

fun encode :: "jsstring \<Rightarrow> (event \<Rightarrow> jsstring option) \<Rightarrow> event \<Rightarrow> jsstring \<times> data" where
  "encode cid caption Thinking =
     (js ''thinking'', no_data\<lparr>d_message := caption Thinking, d_conversation_id := Some cid\<rparr>)"
| "encode cid caption (ToolCall rq) =
     (js ''tool_call'', no_data\<lparr>d_tool_name := Some (tr_name rq), d_message := caption (ToolCall rq)\<rparr>)"
| "encode cid caption (ToolResult rq out) =
     (js ''tool_result'',
      no_data\<lparr>d_tool_name := Some (tr_name rq), d_message := caption (ToolResult rq out)\<rparr>)"
| "encode cid caption (ResponseStart n) =
     (js ''response_start'', no_data\<lparr>d_message := caption (ResponseStart n)\<rparr>)"
| "encode cid caption (ResponseChunk c) =
     (js ''response_chunk'', no_data\<lparr>d_content := Some c\<rparr>)"
| "encode cid caption (ResponseEnd full) =
     (js ''response_end'', no_data\<lparr>d_message := caption (ResponseEnd full)\<rparr>)"
| "encode cid caption (Done st n) =
     (js ''done'', no_data\<lparr>d_status := Some (status_text st), d_conversation_id := Some cid\<rparr>)"
| "encode cid caption (Error f) =
     (js ''error'', no_data\<lparr>d_error := Some (describe f), d_message := caption (Error f)\<rparr>)"

text \<open>
  Modelled from the spec: the JSON answer of the missing non-streaming endpoint,
  \<open>{status, response?, error?, iterations}\<close>.
\<close>

record json_response =
  ns_status :: jsstring
  ns_response :: "jsstring option"
  ns_error :: "jsstring option"
  ns_iterations :: nat

text \<open>
  Modelled from the spec: how the missing non-streaming endpoint answers for a turn:
  status \<open>"success"\<close> with the final text, or status \<open>"error"\<close> with the description of
  the failure.
\<close>

definition respond :: "turn_result \<Rightarrow> json_response" where
  "respond r =
     (case res_failure r of
        None \<Rightarrow> \<lparr>ns_status = js ''success'', ns_response = res_text r, ns_error = None,
                  ns_iterations = res_iterations r\<rparr>
      | Some f \<Rightarrow> \<lparr>ns_status = js ''error'', ns_response = None, ns_error = Some (describe f),
                    ns_iterations = res_iterations r\<rparr>)"

subsection \<open>Readings of an event list\<close>

fun chunk_contents :: "event list \<Rightarrow> jsstring list" where
  "chunk_contents [] = []"
| "chunk_contents (ResponseChunk c # evs) = c # chunk_contents evs"
| "chunk_contents (e # evs) = chunk_contents evs"

fun tool_calls_of :: "event list \<Rightarrow> tool_request list" where
  "tool_calls_of [] = []"
| "tool_calls_of (ToolCall rq # evs) = rq # tool_calls_of evs"
| "tool_calls_of (e # evs) = tool_calls_of evs"

fun tool_results_of :: "event list \<Rightarrow> (tool_request \<times> tool_outcome) list" where
  "tool_results_of [] = []"
| "tool_results_of (ToolResult rq out # evs) = (rq, out) # tool_results_of evs"
| "tool_results_of (e # evs) = tool_results_of evs"

fun is_terminal :: "event \<Rightarrow> bool" where
  "is_terminal (Done st n) = True"
| "is_terminal (Error f) = True"
| "is_terminal e = False"

text \<open>
  Every \<open>tool_result\<close> answers the oldest \<open>tool_call\<close> that is still open, and no call is
  left open at the end: \<open>pending\<close> are the requests called and not yet answered.
\<close>

fun results_follow_calls :: "tool_request list \<Rightarrow> event list \<Rightarrow> bool" where
  "results_follow_calls pending [] = (pending = [])"
| "results_follow_calls pending (ToolCall rq # evs) = results_follow_calls (pending @ [rq]) evs"
| "results_follow_calls pending (ToolResult rq out # evs) =
     (case pending of [] \<Rightarrow> False | p # ps \<Rightarrow> p = rq \<and> results_follow_calls ps evs)"
| "results_follow_calls pending (e # evs) = results_follow_calls pending evs"

text \<open>
  The client's side of the same: handling the calls in order, every \<open>tool_result\<close>
  finds a running entry of its tool name.
\<close>

fun results_find_running :: "store \<Rightarrow> (jsstring \<times> data) list \<Rightarrow> bool" where
  "results_find_running s [] = True"
| "results_find_running s (c # cs) =
     ((if fst c = js ''tool_result''
       then find_running (str_or (d_tool_name (snd c)) tool_default) (currentToolCalls s) \<noteq> None
       else True)
      \<and> results_find_running (deliver s c) cs)"

subsection \<open>The session store\<close>

text \<open>
  Modelled from the spec: the missing Session Store (section 4.4), a map from
  conversation ids to conversations.
\<close>

type_synonym session_store = "jsstring \<rightharpoonup> conversation"

text \<open>Modelled from the spec: the state of a conversation that the missing store creates.\<close>

definition fresh_conversation :: conversation where
  "fresh_conversation = \<lparr>conv_messages = [], conv_iterations = 0, conv_status = ConvActive\<rparr>"

text \<open>
  Modelled from the spec: \<open>reset(id?)\<close> of the missing store: one conversation is
  discarded, or all of them when the id is omitted.
\<close>

definition reset :: "jsstring option \<Rightarrow> session_store \<Rightarrow> session_store" where
  "reset convId st = (case convId of None \<Rightarrow> Map.empty | Some i \<Rightarrow> st(i := None))"

text \<open>
  Modelled from the spec: \<open>getOrCreate(id?)\<close> of the missing store; \<open>generated\<close> is the id
  that the server makes up when the caller gives none.
\<close>

definition getOrCreate ::
  "jsstring option \<Rightarrow> jsstring \<Rightarrow> session_store \<Rightarrow> (conversation \<times> jsstring) \<times> session_store" where
  "getOrCreate convId generated st =
     (let i = (case convId of None \<Rightarrow> generated | Some j \<Rightarrow> j)
      in case st i of
           Some c \<Rightarrow> ((c, i), st)
         | None \<Rightarrow> ((fresh_conversation, i), st(i \<mapsto> fresh_conversation)))"

text \<open>
  Modelled from the spec: the missing handler of \<open>POST /reset\<close>, which calls
  \<open>reset(conversation_id?)\<close>.  The specification does not say where the id travels; the
  repository's API documentation (docs/API_DOCUMENTATION.md, section 4) does: it is a
  query parameter, \<open>POST /reset?conversation_id=...\<close>, and a request without it resets
  all sessions.
\<close>

definition reset_endpoint :: "http_request \<Rightarrow> session_store \<Rightarrow> session_store" where
  "reset_endpoint rq st = reset (map_of (hr_query rq) (js ''conversation_id'')) st"

section \<open>Auxiliary notions\<close>

text \<open>The tool names of the entries that are still running, in order.\<close>

definition running_names :: "tool_entry list \<Rightarrow> jsstring list" where
  "running_names ts = map tc_tool_name (filter (\<lambda>t. tc_status t = Running) ts)"

definition no_running :: "store \<Rightarrow> bool" where
  "no_running s = (running_names (currentToolCalls s) = [])"

text \<open>The name under which the client files the events of a request: \<open>tool_name || default\<close>.\<close>

definition wire_name :: "tool_request \<Rightarrow> jsstring" where
  "wire_name rq = str_or (Some (tr_name rq)) tool_default"

text \<open>
  The gateway asks for tools in each of the next \<open>k\<close> round trips that start from the
  conversation \<open>conv\<close>, the results of each round being appended before the next.
\<close>

fun tools_for ::
  "(conv_message list \<Rightarrow> model_response) \<Rightarrow> (tool_request \<Rightarrow> tool_outcome) \<Rightarrow> conversation
     \<Rightarrow> nat \<Rightarrow> bool" where
  "tools_for gw invoke conv 0 = True"
| "tools_for gw invoke conv (Suc k) =
     (case gw (conv_messages conv) of
        ToolCallsRequested reqs \<Rightarrow>
          reqs \<noteq> [] \<and> tools_for gw invoke (append_results invoke reqs conv) k
      | FinalText frags \<Rightarrow> False
      | GatewayFailed e \<Rightarrow> False)"

text \<open>The kinds of line that the event-stream reader tells apart.\<close>

definition is_event_line :: "jsstring \<Rightarrow> bool" where
  "is_event_line l = startsWith (trim l) (js ''event: '')"

definition is_data_line :: "jsstring \<Rightarrow> bool" where
  "is_data_line l = startsWith (trim l) (js ''data: '')"

section \<open>Example inputs\<close>

text \<open>
  The store in the middle of a streamed turn, after one round with a tool: the user
  message is in the history, the tool entry is completed, and no text has been streamed.
\<close>

definition after_tool_round :: store where
  "after_tool_round =
     initial_store\<lparr>conversationHistory := [\<lparr>msg_role = User, msg_content = Some (js ''hi'')\<rparr>],
                   currentStep := StepChat, isStreaming := True,
                   currentToolCalls := [\<lparr>tc_tool_name = js ''policy_lookup'', tc_status = Completed,
                                         tc_message = js ''ok''\<rparr>]\<rparr>"

text \<open>
  An event stream cut inside a line, and the same text in one piece: an event line that
  ends in a carriage return, its data line, a blank line, a data line without an event,
  and an unfinished last line.  \<open>example_parse\<close> accepts the payload \<open>x\<close> only.
\<close>

definition example_parse :: "jsstring \<Rightarrow> nat option" where
  "example_parse p = (if p = js ''x'' then Some 1 else None)"

definition example_stream :: "jsstring list" where
  "example_stream = [js ''event: do'', js ''ne'' @ [13, 10] @ js ''data: x'' @ [10, 10] @ js ''data: x'' @ [10] @ js ''tail'']"

definition example_text :: "jsstring list" where
  "example_text = [js ''event: done'' @ [13, 10] @ js ''data: x'' @ [10, 10] @ js ''data: x'' @ [10] @ js ''tail'']"

text \<open>
  The store just before \<open>done\<close>, once with a streamed text that holds the second report
  marker and once with a plain answer.
\<close>

definition report_state :: store where
  "report_state = initial_store\<lparr>currentStep := StepChat, streamingMessage := js ''# '' @ marker_total_cost\<rparr>"

definition answer_state :: store where
  "answer_state = initial_store\<lparr>currentStep := StepChat, streamingMessage := js ''30%''\<rparr>"

text \<open>
  Two streams that end with a network error: one breaks after the first
  \<open>response_chunk\<close>, the other after the \<open>done\<close> event.  \<open>events_parse\<close> stands for
  \<open>JSON.parse\<close> on their two payloads.
\<close>

definition network_error :: js_error where
  "network_error = new_Error (Some (js ''network error''))"

definition chunk_payload :: data where
  "chunk_payload = no_data\<lparr>d_content := Some (js ''ok'')\<rparr>"

definition done_payload :: data where
  "done_payload = no_data\<lparr>d_conversation_id := Some (js ''c1'')\<rparr>"

definition events_parse :: "jsstring \<Rightarrow> data option" where
  "events_parse p = (if p = js ''1'' then Some chunk_payload
                     else if p = js ''2'' then Some done_payload else None)"

definition broken_before_done :: "chat_request \<Rightarrow> stream_result" where
  "broken_before_done rq =
     \<lparr>sr_chunks = [js ''event: response_chunk'' @ [10] @ js ''data: 1'' @ [10, 10]],
      sr_failure = Some network_error\<rparr>"

definition broken_after_done :: "chat_request \<Rightarrow> stream_result" where
  "broken_after_done rq =
     \<lparr>sr_chunks = [js ''event: response_chunk'' @ [10] @ js ''data: 1'' @ [10, 10],
                   js ''event: done'' @ [10] @ js ''data: 2'' @ [10, 10]],
      sr_failure = Some network_error\<rparr>"

text \<open>A session store with two conversations that have been answered once.\<close>

definition answered_conversation :: conversation where
  "answered_conversation =
     \<lparr>conv_messages = [UserMessage (js ''hi''), AssistantMessage (js ''30%'')],
      conv_iterations = 1, conv_status = ConvCompleted\<rparr>"

definition example_sessions :: session_store where
  "example_sessions = [js ''conv_a'' \<mapsto> answered_conversation, js ''conv_b'' \<mapsto> answered_conversation]"

text \<open>
  Two turns of the agent loop on a fresh conversation: scenario D of the specification
  (\<open>max_iterations = 1\<close>, a gateway that always asks for a tool), and a turn whose final
  text is empty.  \<open>streaming_start\<close> is the store as \<open>sendMessageStream\<close> has it when the
  first event arrives.
\<close>

definition lookup_request :: tool_request where
  "lookup_request = \<lparr>tr_id = 0, tr_name = js ''policy_lookup'', tr_args = []\<rparr>"

definition scenario_D :: turn_result where
  "scenario_D =
     run_turn (\<lambda>h. ToolCallsRequested [lookup_request]) (\<lambda>rq. ToolSuccess []) 1
       fresh_conversation (js ''hi'')"

definition empty_answer :: turn_result where
  "empty_answer =
     run_turn (\<lambda>h. FinalText [[]]) (\<lambda>rq. ToolSuccess []) 15 fresh_conversation (js ''hi'')"

definition streaming_start :: store where
  "streaming_start =
     initial_store\<lparr>userInput := js ''hi'',
                   conversationHistory := [\<lparr>msg_role = User, msg_content = Some (js ''hi'')\<rparr>],
                   currentStep := StepChat, isStreaming := True\<rparr>"

section \<open>Properties\<close>

subsection \<open>Basic facts\<close>

lemma js_eq_iff [simp]: "js a = js b \<longleftrightarrow> a = b"
  by (simp add: js_def inj_of_char)

lemma js_empty_iff [simp]: "js a = [] \<longleftrightarrow> a = []"
  by (simp add: js_def)

subsection \<open>Handling one encoded event\<close>

lemma deliver_Thinking:
  "deliver s (encode cid cap Thinking) = s\<lparr>streamingProgress := str_or (cap Thinking) thinking_text\<rparr>"
  by (simp add: deliver_def handleStreamEvent_def no_data_def)

lemma deliver_ToolCall:
  "deliver s (encode cid cap (ToolCall rq)) =
     s\<lparr>currentToolCalls := currentToolCalls s @
          [\<lparr>tc_tool_name = str_or (Some (tr_name rq)) tool_default, tc_status = Running,
            tc_message = str_or (cap (ToolCall rq))
               (calling_prefix @ str_or (Some (tr_name rq)) tool_default @ js ''...'')\<rparr>],
       streamingProgress := str_or (cap (ToolCall rq))
               (calling_prefix @ str_or (Some (tr_name rq)) tool_default @ js ''...'')\<rparr>"
  by (simp add: deliver_def handleStreamEvent_def no_data_def Let_def)

lemma deliver_ToolResult:
  "currentToolCalls (deliver s (encode cid cap (ToolResult rq out))) =
     (case find_running (str_or (Some (tr_name rq)) tool_default) (currentToolCalls s) of
        None \<Rightarrow> currentToolCalls s
      | Some t \<Rightarrow> mark_completed (str_or (Some (tr_name rq)) tool_default)
           (str_or (cap (ToolResult rq out)) (str_or (Some (tr_name rq)) tool_default @ finished_suffix))
           (currentToolCalls s))"
  by (simp add: deliver_def handleStreamEvent_def no_data_def Let_def)

lemma deliver_ResponseStart:
  "deliver s (encode cid cap (ResponseStart n)) = s\<lparr>streamingProgress := generating_text\<rparr>"
  by (simp add: deliver_def handleStreamEvent_def no_data_def)

lemma deliver_ResponseChunk:
  "deliver s (encode cid cap (ResponseChunk c)) = s\<lparr>streamingMessage := streamingMessage s @ c\<rparr>"
  by (simp add: deliver_def handleStreamEvent_def no_data_def js_or_def str_or_def)

lemma deliver_ResponseEnd:
  "deliver s (encode cid cap (ResponseEnd c)) = s\<lparr>streamingProgress := []\<rparr>"
  by (simp add: deliver_def handleStreamEvent_def no_data_def)

lemma deliver_Error:
  "deliver s (encode cid cap (Error f)) = s\<lparr>error := Some stream_error_text\<rparr>"
  by (simp add: deliver_def handleStreamEvent_def no_data_def handleError_def new_Error_def)

lemma deliver_Done:
  "deliver s (encode cid cap (Done st n))
     = state_of (handle_done (no_data\<lparr>d_status := Some (status_text st), d_conversation_id := Some cid\<rparr>) s)"
  by (simp add: deliver_def handleStreamEvent_def)


declare encode.simps [simp del]

subsection \<open>Tool-call entries of the store\<close>

lemma running_names_append:
  "running_names (ts @ us) = running_names ts @ running_names us"
  by (simp add: running_names_def)

lemma find_running_None: "find_running n ts = None \<longleftrightarrow> n \<notin> set (running_names ts)"
  by (auto simp: find_running_def running_names_def find_None_iff)

lemma running_names_mark: "running_names (mark_completed n m ts) = remove1 n (running_names ts)"
  by (induction ts) (auto simp: running_names_def)

lemma length_mark: "length (mark_completed n m ts) = length ts"
  by (induction ts) auto

lemma results_find_running_append:
  "results_find_running s (xs @ ys)
     = (results_find_running s xs \<and> results_find_running (foldl deliver s xs) ys)"
  by (induction xs arbitrary: s) auto

lemma results_find_running_other:
  "\<forall>c\<in>set cs. fst c \<noteq> js ''tool_result'' \<Longrightarrow> results_find_running s cs"
  by (induction cs arbitrary: s) auto

lemma fst_encode_tool_result:
  "fst (encode cid cap e) = js ''tool_result'' \<longleftrightarrow> (\<exists>rq out. e = ToolResult rq out)"
  by (cases e) (auto simp: encode.simps)

lemma encode_ToolResult_parts:
  "fst (encode cid cap (ToolResult rq out)) = js ''tool_result''"
  "d_tool_name (snd (encode cid cap (ToolResult rq out))) = Some (tr_name rq)"
  by (simp_all add: encode.simps no_data_def)

lemma calls_round:
  "currentToolCalls (foldl deliver s (map (encode cid cap) (map ToolCall reqs)))
     = currentToolCalls s @ map (\<lambda>rq. \<lparr>tc_tool_name = wire_name rq, tc_status = Running,
            tc_message = str_or (cap (ToolCall rq)) (calling_prefix @ wire_name rq @ js ''...'')\<rparr>) reqs"
  by (induction reqs arbitrary: s) (simp_all add: deliver_ToolCall wire_name_def)

lemma deliver_ToolResult_running:
  "running_names (currentToolCalls (deliver s (encode cid cap (ToolResult rq out))))
     = remove1 (wire_name rq) (running_names (currentToolCalls s))"
  by (auto simp: deliver_ToolResult wire_name_def running_names_mark find_running_None remove1_idem
      split: option.splits)

lemma deliver_ToolResult_length:
  "length (currentToolCalls (deliver s (encode cid cap (ToolResult rq out))))
     = length (currentToolCalls s)"
  by (auto simp: deliver_ToolResult length_mark split: option.splits)

lemma results_round:
  "running_names (currentToolCalls s) = map wire_name reqs @ rest \<Longrightarrow>
   results_find_running s (map (encode cid cap) (map (\<lambda>rq. ToolResult rq (invoke rq)) reqs))
   \<and> running_names (currentToolCalls (foldl deliver s
          (map (encode cid cap) (map (\<lambda>rq. ToolResult rq (invoke rq)) reqs)))) = rest
   \<and> length (currentToolCalls (foldl deliver s
          (map (encode cid cap) (map (\<lambda>rq. ToolResult rq (invoke rq)) reqs))))
       = length (currentToolCalls s)"
proof (induction reqs arbitrary: s)
  case Nil
  then show ?case by simp
next
  case (Cons rq reqs)
  let ?s = "deliver s (encode cid cap (ToolResult rq (invoke rq)))"
  have found: "find_running (wire_name rq) (currentToolCalls s) \<noteq> None"
    using Cons.prems by (simp add: find_running_None)
  have "running_names (currentToolCalls ?s) = map wire_name reqs @ rest"
    using Cons.prems by (simp add: deliver_ToolResult_running)
  from Cons.IH [OF this] found show ?case
    by (simp add: deliver_ToolResult_length wire_name_def encode_ToolResult_parts)
qed

lemma calls_no_results:
  "results_find_running s (map (encode cid cap) (map ToolCall reqs))"
  by (rule results_find_running_other) (auto simp: fst_encode_tool_result)

lemma running_names_entries:
  "running_names (map (\<lambda>rq. \<lparr>tc_tool_name = f rq, tc_status = Running, tc_message = g rq\<rparr>) reqs)
     = map f reqs"
  by (induction reqs) (auto simp: running_names_def)

lemma round_ok:
  fixes reqs :: "tool_request list" and invoke :: "tool_request \<Rightarrow> tool_outcome"
  assumes "no_running s"
  defines "round \<equiv> tool_round invoke reqs"
  shows "results_find_running s (map (encode cid cap) round)"
    and "no_running (foldl deliver s (map (encode cid cap) round))"
    and "length (currentToolCalls (foldl deliver s (map (encode cid cap) round)))
           = length (currentToolCalls s) + length reqs"
proof -
  let ?s1 = "deliver s (encode cid cap Thinking)"
  let ?s2 = "foldl deliver ?s1 (map (encode cid cap) (map ToolCall reqs))"
  let ?res = "map (encode cid cap) (map (\<lambda>rq. ToolResult rq (invoke rq)) reqs)"
  have c1: "currentToolCalls ?s1 = currentToolCalls s"
    by (simp add: deliver_Thinking)
  have c2: "currentToolCalls ?s2 = currentToolCalls s @
      map (\<lambda>rq. \<lparr>tc_tool_name = wire_name rq, tc_status = Running,
            tc_message = str_or (cap (ToolCall rq)) (calling_prefix @ wire_name rq @ js ''...'')\<rparr>) reqs"
    by (simp only: calls_round c1)
  have r2: "running_names (currentToolCalls ?s2) = map wire_name reqs @ []"
    using assms(1) unfolding c2 no_running_def
    by (simp add: running_names_append running_names_entries)
  have l2: "length (currentToolCalls ?s2) = length (currentToolCalls s) + length reqs"
    unfolding c2 by simp
  note rr = results_round [OF r2, of cid cap invoke]
  have split: "map (encode cid cap) round
      = [encode cid cap Thinking] @ map (encode cid cap) (map ToolCall reqs) @ ?res"
    by (simp add: round_def tool_round_def)
  show "results_find_running s (map (encode cid cap) round)"
    unfolding split results_find_running_append
    using rr calls_no_results [of ?s1 cid cap reqs]
    by (simp add: encode.simps)
  show "no_running (foldl deliver s (map (encode cid cap) round))"
    unfolding split using rr by (simp add: no_running_def)
  show "length (currentToolCalls (foldl deliver s (map (encode cid cap) round)))
           = length (currentToolCalls s) + length reqs"
    unfolding split using rr l2 by simp
qed

subsection \<open>Events of the agent loop\<close>

lemma tool_round_no_terminal: "\<forall>e\<in>set (tool_round invoke reqs). \<not> is_terminal e"
  by (auto simp: tool_round_def)

lemma tool_round_follow:
  "results_follow_calls [] (tool_round invoke reqs @ evs) = results_follow_calls [] evs"
proof -
  have a: "results_follow_calls p (map ToolCall rs @ es) = results_follow_calls (p @ rs) es" for p rs es
    by (induction rs arbitrary: p) auto
  have b: "results_follow_calls (rs @ p) (map (\<lambda>rq. ToolResult rq (invoke rq)) rs @ es)
             = results_follow_calls p es" for p rs es
    by (induction rs) auto
  show ?thesis using a [of "[]" reqs] b [of reqs "[]"] by (simp add: tool_round_def)
qed

lemma tool_calls_of_append: "tool_calls_of (xs @ ys) = tool_calls_of xs @ tool_calls_of ys"
  by (induction xs rule: tool_calls_of.induct) auto

lemma tool_results_of_append: "tool_results_of (xs @ ys) = tool_results_of xs @ tool_results_of ys"
  by (induction xs rule: tool_results_of.induct) auto

lemma chunk_contents_append: "chunk_contents (xs @ ys) = chunk_contents xs @ chunk_contents ys"
  by (induction xs rule: chunk_contents.induct) auto

lemma tool_round_calls: "tool_calls_of (tool_round invoke reqs) = reqs"
proof -
  have a: "tool_calls_of (map ToolCall rs) = rs" for rs by (induction rs) auto
  have b: "tool_calls_of (map (\<lambda>rq. ToolResult rq (invoke rq)) rs) = []" for rs by (induction rs) auto
  show ?thesis by (simp add: tool_round_def tool_calls_of_append a b)
qed

lemma tool_round_results:
  "tool_results_of (tool_round invoke reqs) = map (\<lambda>rq. (rq, invoke rq)) reqs"
proof -
  have a: "tool_results_of (map ToolCall rs) = []" for rs by (induction rs) auto
  have b: "tool_results_of (map (\<lambda>rq. ToolResult rq (invoke rq)) rs) = map (\<lambda>rq. (rq, invoke rq)) rs" for rs
    by (induction rs) auto
  show ?thesis by (simp add: tool_round_def tool_results_of_append a b)
qed

lemma tool_round_chunks: "chunk_contents (tool_round invoke reqs) = []"
proof -
  have a: "chunk_contents (map ToolCall rs) = []" for rs by (induction rs) auto
  have b: "chunk_contents (map (\<lambda>rq. ToolResult rq (invoke rq)) rs) = []" for rs by (induction rs) auto
  show ?thesis by (simp add: tool_round_def chunk_contents_append a b)
qed

lemma chunk_contents_chunks: "chunk_contents (map ResponseChunk frags) = frags"
  by (induction frags) auto

lemma follow_chunks: "results_follow_calls p (map ResponseChunk frags @ evs) = results_follow_calls p evs"
  by (induction frags) auto

lemma calls_chunks: "tool_calls_of (map ResponseChunk frags) = []"
  by (induction frags) auto

lemma results_chunks: "tool_results_of (map ResponseChunk frags) = []"
  by (induction frags) auto


lemma agent_loop_result_induct [case_names Failed Final Limit Again]:
  assumes failed: "\<And>conv n e. P conv n (fail_turn conv n [Thinking] (GatewayError e))"
    and final: "\<And>conv n frags. P conv n (finish_turn conv (Suc n) frags)"
    and limit: "\<And>conv n reqs. reqs \<noteq> [] \<Longrightarrow> mx \<le> Suc n \<Longrightarrow>
        P conv n (fail_turn (append_results invoke reqs conv) (Suc n) (tool_round invoke reqs)
                   IterationLimitExceeded)"
    and again: "\<And>conv n reqs r. reqs \<noteq> [] \<Longrightarrow> \<not> mx \<le> Suc n \<Longrightarrow>
        P (append_results invoke reqs conv) (Suc n) r \<Longrightarrow>
        P conv n (emit_before (tool_round invoke reqs) r)"
  shows "P conv n (agent_loop gw invoke mx conv n)"
  using assms
proof (induction gw invoke mx conv n rule: agent_loop.induct)
  case (1 gw invoke mx conv n)
  show ?case
  proof (cases "gw (conv_messages conv)")
    case (FinalText frags)
    then show ?thesis
      using "1.prems"(2) [of conv n frags] by (simp add: agent_loop.simps [of gw invoke mx conv n])
  next
    case (ToolCallsRequested reqs)
    show ?thesis
    proof (cases "reqs = []")
      case True
      with ToolCallsRequested show ?thesis
        using "1.prems"(2) [of conv n "[[]]"] by (simp add: agent_loop.simps [of gw invoke mx conv n])
    next
      case False
      show ?thesis
      proof (cases "mx \<le> Suc n")
        case True
        from "1.prems"(3) [OF False True, of conv] False True ToolCallsRequested show ?thesis
          by (simp add: agent_loop.simps [of gw invoke mx conv n])
      next
        case nolimit: False
        have "P (append_results invoke reqs conv) (Suc n)
                (agent_loop gw invoke mx (append_results invoke reqs conv) (Suc n))"
          by (rule "1.IH" [OF ToolCallsRequested False nolimit]) (fact "1.prems")+
        from "1.prems"(4) [OF False nolimit this] False nolimit ToolCallsRequested
        show ?thesis
          by (simp add: agent_loop.simps [of gw invoke mx conv n])
      qed
    qed
  next
    case (GatewayFailed e)
    then show ?thesis
      using "1.prems"(1) [of conv n e] by (simp add: agent_loop.simps [of gw invoke mx conv n])
  qed
qed

lemma loop_follow:
  "results_follow_calls [] (res_events (agent_loop gw invoke mx conv n))
   \<and> tool_calls_of (res_events (agent_loop gw invoke mx conv n))
       = map fst (tool_results_of (res_events (agent_loop gw invoke mx conv n)))"
  by (rule agent_loop_result_induct)
     (simp_all add: fail_turn_def finish_turn_def emit_before_def follow_chunks calls_chunks
        results_chunks tool_round_follow tool_calls_of_append tool_results_of_append
        tool_round_calls tool_round_results comp_def)

lemma loop_history:
  "conv_messages (res_conversation (agent_loop gw invoke mx conv n))
     = conv_messages conv
       @ map (\<lambda>(rq, out). ToolResultMessage (tr_id rq) out)
           (tool_results_of (res_events (agent_loop gw invoke mx conv n)))
       @ (case res_text (agent_loop gw invoke mx conv n) of None \<Rightarrow> [] | Some t \<Rightarrow> [AssistantMessage t])"
  by (rule agent_loop_result_induct)
     (simp_all add: fail_turn_def finish_turn_def emit_before_def results_chunks
        tool_results_of_append tool_round_results append_results_def comp_def)

lemma tool_round_no_end: "ResponseEnd full \<notin> set (tool_round invoke reqs)"
  by (auto simp: tool_round_def)

lemma loop_chunks:
  "concat (chunk_contents (res_events (agent_loop gw invoke mx conv n)))
       = (case res_text (agent_loop gw invoke mx conv n) of None \<Rightarrow> [] | Some t \<Rightarrow> t)
   \<and> (\<forall>full. ResponseEnd full \<in> set (res_events (agent_loop gw invoke mx conv n))
         \<longrightarrow> res_text (agent_loop gw invoke mx conv n) = Some full)"
proof (rule agent_loop_result_induct, goal_cases)
  case (1 conv n e)
  show ?case by (simp add: fail_turn_def)
next
  case (2 conv n frags)
  show ?case by (auto simp add: finish_turn_def chunk_contents_append chunk_contents_chunks)
next
  case (3 conv n reqs)
  show ?case by (simp add: fail_turn_def chunk_contents_append tool_round_chunks tool_round_no_end)
next
  case (4 conv n reqs r)
  then show ?case
    by (simp add: emit_before_def chunk_contents_append tool_round_chunks tool_round_no_end)
qed


lemma tool_round_thinking: "length (filter (\<lambda>e. e = Thinking) (tool_round invoke reqs)) = 1"
proof -
  have a: "filter (\<lambda>e. e = Thinking) (map ToolCall rs) = []" for rs by (induction rs) auto
  have b: "filter (\<lambda>e. e = Thinking) (map (\<lambda>rq. ToolResult rq (invoke rq)) rs) = []" for rs
    by (induction rs) auto
  show ?thesis by (simp add: tool_round_def a b)
qed

lemma chunks_thinking: "filter (\<lambda>e. e = Thinking) (map ResponseChunk frags) = []"
  by (induction frags) auto

lemma loop_bound:
  "n < mx \<longrightarrow> res_iterations (agent_loop gw invoke mx conv n) \<le> mx
     \<and> length (filter (\<lambda>e. e = Thinking) (res_events (agent_loop gw invoke mx conv n))) \<le> mx - n
     \<and> (res_failure (agent_loop gw invoke mx conv n) = Some IterationLimitExceeded
          \<longrightarrow> res_iterations (agent_loop gw invoke mx conv n) = mx)"
proof (rule agent_loop_result_induct [where P = "\<lambda>conv n r. n < mx \<longrightarrow> res_iterations r \<le> mx
     \<and> length (filter (\<lambda>e. e = Thinking) (res_events r)) \<le> mx - n
     \<and> (res_failure r = Some IterationLimitExceeded \<longrightarrow> res_iterations r = mx)"], goal_cases)
  case (1 conv n e)
  show ?case by (auto simp add: fail_turn_def)
next
  case (2 conv n frags)
  show ?case by (auto simp add: finish_turn_def chunks_thinking)
next
  case (3 conv n reqs)
  then show ?case by (auto simp add: fail_turn_def tool_round_thinking)
next
  case (4 conv n reqs r)
  then show ?case
    by (auto simp add: emit_before_def tool_round_thinking)
qed

lemma chunks_no_terminal: "\<forall>e\<in>set (map ResponseChunk frags). \<not> is_terminal e"
  by auto

lemma loop_terminal:
  "res_events (agent_loop gw invoke mx conv n) \<noteq> []
   \<and> (\<forall>e\<in>set (butlast (res_events (agent_loop gw invoke mx conv n))). \<not> is_terminal e)
   \<and> last (res_events (agent_loop gw invoke mx conv n))
       = (case res_failure (agent_loop gw invoke mx conv n) of
            None \<Rightarrow> Done StatusSuccess (res_iterations (agent_loop gw invoke mx conv n))
          | Some f \<Rightarrow> failure_event f (res_iterations (agent_loop gw invoke mx conv n)))"
proof (rule agent_loop_result_induct, goal_cases)
  case (1 conv n e)
  show ?case by (simp add: fail_turn_def)
next
  case (2 conv n frags)
  have "butlast ([Thinking, ResponseStart (Suc n)] @ map ResponseChunk frags
                  @ [ResponseEnd (concat frags), Done StatusSuccess (Suc n)])
        = [Thinking, ResponseStart (Suc n)] @ map ResponseChunk frags @ [ResponseEnd (concat frags)]"
    by (simp add: butlast_append)
  then show ?case by (auto simp add: finish_turn_def)
next
  case (3 conv n reqs)
  show ?case using tool_round_no_terminal [of invoke reqs] by (simp add: fail_turn_def)
next
  case (4 conv n reqs r)
  then show ?case using tool_round_no_terminal [of invoke reqs]
    by (auto simp add: emit_before_def butlast_append split: option.splits)
qed

subsection \<open>The client on the events of a turn\<close>

lemma chunks_fold:
  "foldl deliver s (map (encode cid cap) (map ResponseChunk frags))
     = s\<lparr>streamingMessage := streamingMessage s @ concat frags\<rparr>"
  by (induction frags arbitrary: s) (simp_all add: deliver_ResponseChunk)

lemma finish_prefix_fold:
  "foldl deliver s (map (encode cid cap)
      ([Thinking, ResponseStart n] @ map ResponseChunk frags @ [ResponseEnd full]))
   = s\<lparr>streamingMessage := streamingMessage s @ concat frags, streamingProgress := []\<rparr>"
  by (simp add: deliver_Thinking deliver_ResponseStart deliver_ResponseEnd chunks_fold
      del: map_map)

lemma finish_butlast:
  "butlast (res_events (finish_turn conv n frags))
     = [Thinking, ResponseStart n] @ map ResponseChunk frags @ [ResponseEnd (concat frags)]"
  by (simp add: finish_turn_def butlast_append)

lemma finish_no_results:
  "results_find_running s (map (encode cid cap) (res_events (finish_turn conv n frags)))"
  by (rule results_find_running_other) (auto simp: fst_encode_tool_result finish_turn_def)

lemma loop_client_tools:
  "\<forall>s. no_running s \<longrightarrow>
     results_find_running s (map (encode cid cap) (res_events (agent_loop gw invoke mx conv n)))
     \<and> res_events (agent_loop gw invoke mx conv n) \<noteq> []
     \<and> no_running (foldl deliver s
           (map (encode cid cap) (butlast (res_events (agent_loop gw invoke mx conv n)))))
     \<and> length (currentToolCalls (foldl deliver s
           (map (encode cid cap) (butlast (res_events (agent_loop gw invoke mx conv n))))))
         = length (currentToolCalls s)
           + length (tool_calls_of (res_events (agent_loop gw invoke mx conv n)))"
proof (rule agent_loop_result_induct [where P = "\<lambda>conv n r. \<forall>s. no_running s \<longrightarrow>
     results_find_running s (map (encode cid cap) (res_events r))
     \<and> res_events r \<noteq> []
     \<and> no_running (foldl deliver s (map (encode cid cap) (butlast (res_events r))))
     \<and> length (currentToolCalls (foldl deliver s (map (encode cid cap) (butlast (res_events r)))))
         = length (currentToolCalls s) + length (tool_calls_of (res_events r))"], goal_cases)
  case (1 conv n e)
  have "results_find_running s (map (encode cid cap) [Thinking, Error (GatewayError e)])" for s
    by (rule results_find_running_other) (auto simp: fst_encode_tool_result)
  then show ?case
    by (simp add: fail_turn_def deliver_Thinking no_running_def fst_encode_tool_result)
next
  case (2 conv n frags)
  show ?case
    unfolding finish_butlast finish_prefix_fold
    by (simp add: finish_no_results no_running_def)
       (simp add: finish_turn_def tool_calls_of_append calls_chunks)
next
  case (3 conv n reqs)
  show ?case
  proof (intro allI impI)
    fix s assume nr: "no_running s"
    have e: "results_find_running (foldl deliver s (map (encode cid cap) (tool_round invoke reqs)))
               [encode cid cap (Done StatusError (Suc n))]"
      by (rule results_find_running_other) (auto simp: fst_encode_tool_result)
    show "results_find_running s (map (encode cid cap)
             (res_events (fail_turn (append_results invoke reqs conv) (Suc n)
                (tool_round invoke reqs) IterationLimitExceeded)))
      \<and> res_events (fail_turn (append_results invoke reqs conv) (Suc n)
                (tool_round invoke reqs) IterationLimitExceeded) \<noteq> []
      \<and> no_running (foldl deliver s (map (encode cid cap) (butlast
             (res_events (fail_turn (append_results invoke reqs conv) (Suc n)
                (tool_round invoke reqs) IterationLimitExceeded)))))
      \<and> length (currentToolCalls (foldl deliver s (map (encode cid cap) (butlast
             (res_events (fail_turn (append_results invoke reqs conv) (Suc n)
                (tool_round invoke reqs) IterationLimitExceeded))))))
         = length (currentToolCalls s) + length (tool_calls_of
             (res_events (fail_turn (append_results invoke reqs conv) (Suc n)
                (tool_round invoke reqs) IterationLimitExceeded)))"
      using round_ok [OF nr, of cid cap invoke reqs] e
      by (simp add: fail_turn_def results_find_running_append butlast_append
          tool_calls_of_append tool_round_calls)
  qed
next
  case (4 conv n reqs r)
  show ?case
  proof (intro allI impI)
    fix s assume nr: "no_running s"
    let ?s = "foldl deliver s (map (encode cid cap) (tool_round invoke reqs))"
    note ro = round_ok [OF nr, of cid cap invoke reqs]
    from 4(3) ro(2) have ih:
      "results_find_running ?s (map (encode cid cap) (res_events r))"
      "res_events r \<noteq> []"
      "no_running (foldl deliver ?s (map (encode cid cap) (butlast (res_events r))))"
      "length (currentToolCalls (foldl deliver ?s (map (encode cid cap) (butlast (res_events r)))))
         = length (currentToolCalls ?s) + length (tool_calls_of (res_events r))"
      by blast+
    show "results_find_running s (map (encode cid cap)
             (res_events (emit_before (tool_round invoke reqs) r)))
      \<and> res_events (emit_before (tool_round invoke reqs) r) \<noteq> []
      \<and> no_running (foldl deliver s (map (encode cid cap) (butlast
             (res_events (emit_before (tool_round invoke reqs) r)))))
      \<and> length (currentToolCalls (foldl deliver s (map (encode cid cap) (butlast
             (res_events (emit_before (tool_round invoke reqs) r))))))
         = length (currentToolCalls s) + length (tool_calls_of
             (res_events (emit_before (tool_round invoke reqs) r)))"
      using ro ih
      by (simp add: emit_before_def results_find_running_append butlast_append
          tool_calls_of_append tool_round_calls)
  qed
qed

lemma deliver_ToolResult_text:
  "streamingMessage (deliver s (encode cid cap (ToolResult rq out))) = streamingMessage s"
  by (simp add: deliver_def handleStreamEvent_def encode.simps Let_def)

lemma round_text:
  "streamingMessage (foldl deliver s (map (encode cid cap) (tool_round invoke reqs)))
     = streamingMessage s"
proof -
  have a: "streamingMessage (foldl deliver t (map (encode cid cap) (map ToolCall rs)))
             = streamingMessage t" for t rs
    by (induction rs arbitrary: t) (simp_all add: deliver_ToolCall)
  have b: "streamingMessage (foldl deliver t
             (map (encode cid cap) (map (\<lambda>rq. ToolResult rq (invoke rq)) rs)))
             = streamingMessage t" for t rs
    by (induction rs arbitrary: t) (simp_all add: deliver_ToolResult_text)
  show ?thesis
    by (simp add: tool_round_def a b deliver_Thinking del: map_map)
qed

lemma loop_client_text:
  "res_events (agent_loop gw invoke mx conv n) \<noteq> []
   \<and> (\<forall>s. streamingMessage (foldl deliver s
           (map (encode cid cap) (butlast (res_events (agent_loop gw invoke mx conv n)))))
        = streamingMessage s @ concat (chunk_contents (res_events (agent_loop gw invoke mx conv n))))"
proof (rule agent_loop_result_induct [where P = "\<lambda>conv n r. res_events r \<noteq> []
   \<and> (\<forall>s. streamingMessage (foldl deliver s (map (encode cid cap) (butlast (res_events r))))
        = streamingMessage s @ concat (chunk_contents (res_events r)))"], goal_cases)
  case (1 conv n e)
  show ?case by (simp add: fail_turn_def deliver_Thinking)
next
  case (2 conv n frags)
  show ?case
    unfolding finish_butlast finish_prefix_fold
    by (simp add: finish_turn_def chunk_contents_append chunk_contents_chunks)
next
  case (3 conv n reqs)
  show ?case
    by (simp add: fail_turn_def butlast_append chunk_contents_append tool_round_chunks round_text)
next
  case (4 conv n reqs r)
  then show ?case
    by (simp add: emit_before_def butlast_append chunk_contents_append tool_round_chunks round_text)
qed

subsection \<open>The event-stream reader\<close>

lemma split_nl_nonempty [simp]: "split_nl s \<noteq> []"
  by (induction s) (auto split: list.splits)

lemma split_nl_append:
  "split_nl (a @ b) = butlast (split_nl a) @ split_nl (last (split_nl a) @ b)"
proof (induction a)
  case Nil
  show ?case by simp
next
  case (Cons c a)
  show ?case
  proof (cases "c = 10")
    case True
    then show ?thesis using Cons by simp
  next
    case False
    show ?thesis
    proof (cases "split_nl a")
      case Nil
      then show ?thesis by simp
    next
      case (Cons l ls)
      show ?thesis
      proof (cases ls)
        case Nil
        with Cons False \<open>split_nl (a @ b) = _\<close> show ?thesis by simp
      next
        case (Cons l' ls')
        with \<open>split_nl a = l # ls\<close> False \<open>split_nl (a @ b) = _\<close> show ?thesis by simp
      qed
    qed
  qed
qed

lemma last_split_nl_no_newline: "10 \<notin> set (last (split_nl s))"
  by (induction s) (auto split: list.splits)

lemma split_nl_no_newline: "10 \<notin> set s \<Longrightarrow> split_nl s = [s]"
  by (induction s) auto

lemma process_lines_append:
  "process_lines parse cur (xs @ ys) =
     (fst (process_lines parse (fst (process_lines parse cur xs)) ys),
      snd (process_lines parse cur xs) @ snd (process_lines parse (fst (process_lines parse cur xs)) ys))"
  by (induction xs arbitrary: cur) (auto simp: Let_def split: prod.splits)

lemma read_loop_lines:
  "10 \<notin> set buf \<Longrightarrow>
   read_loop parse buf cur chunks
     = snd (process_lines parse cur (butlast (split_nl (buf @ concat chunks))))"
proof (induction chunks arbitrary: buf cur)
  case Nil
  then show ?case by (simp add: split_nl_no_newline)
next
  case (Cons c cs)
  let ?lines = "split_nl (buf @ c)"
  have sp: "split_nl (buf @ concat (c # cs))
              = butlast ?lines @ split_nl (last ?lines @ concat cs)"
    using split_nl_append [of "buf @ c" "concat cs"] by simp
  have bl: "butlast (split_nl (buf @ concat (c # cs)))
              = butlast ?lines @ butlast (split_nl (last ?lines @ concat cs))"
    unfolding sp by (simp add: butlast_append)
  have ih: "read_loop parse (last ?lines) ev cs
              = snd (process_lines parse ev (butlast (split_nl (last ?lines @ concat cs))))" for ev
    by (rule Cons.IH) (rule last_split_nl_no_newline)
  show ?case
    unfolding bl process_lines_append
    by (simp add: ih Let_def split: prod.splits)
qed

lemma js_event_prefix: "js ''event: '' = [101, 118, 101, 110, 116, 58, 32]"
  by (simp add: js_def)

lemma js_data_prefix: "js ''data: '' = [100, 97, 116, 97, 58, 32]"
  by (simp add: js_def)

lemma data_not_event: "is_data_line l \<Longrightarrow> \<not> is_event_line l"
  by (cases "trim l") (auto simp: is_data_line_def is_event_line_def js_event_prefix js_data_prefix)

lemma process_line_no_event:
  "\<not> is_event_line l \<Longrightarrow> process_line parse None l = (None, [])"
  by (simp add: process_line_def is_event_line_def Let_def)

lemma process_lines_no_event:
  "\<forall>l\<in>set ls. \<not> is_event_line l \<Longrightarrow> process_lines parse None ls = (None, [])"
  by (induction ls) (simp_all add: process_line_no_event)

lemma process_line_blank:
  "trim b = [] \<Longrightarrow> process_line parse cur b = (None, [])"
  by (simp add: process_line_def Let_def js_event_prefix js_data_prefix)

lemma process_line_bad_json:
  "is_data_line l \<Longrightarrow> parse (drop 6 (trim l)) = None \<Longrightarrow> process_line parse cur l = (cur, [])"
  using data_not_event [of l]
  by (simp add: process_line_def Let_def is_data_line_def is_event_line_def)

subsection \<open>Default iteration limit of a chat request\<close>

text \<open>
  Claim C6.  A chat request built without a value for \<open>maxIterations\<close> carries
  \<open>max_iterations = 15\<close>, in the non-streaming and in the streaming entry point of the
  API client (and in \<open>generateHousingSolution\<close>, which forwards an absent option).  The
  store's actions \<open>sendMessage\<close> and \<open>sendMessageStream\<close> supply no value, so the
  backend only ever sees requests with \<open>max_iterations = 15\<close> from them: replacing the
  field by 15 in whatever they send changes nothing.
\<close>

theorem default_max_iterations:
  "rq_max_iterations (sendChatMessage_request m c None) = 15
   \<and> rq_max_iterations (sendChatMessageStream_request m c None) = 15
   \<and> rq_max_iterations (generateHousingSolution_request m c None) = 15
   \<and> sendMessage input api s = sendMessage input (\<lambda>r. api (r\<lparr>rq_max_iterations := 15\<rparr>)) s
   \<and> sendMessageStream input parse fetch s
       = sendMessageStream input parse (\<lambda>r. fetch (r\<lparr>rq_max_iterations := 15\<rparr>)) s"
  by (simp add: sendChatMessage_request_def sendChatMessageStream_request_def
      generateHousingSolution_request_def default_param_def sendMessage_def sendMessageStream_def)

subsection \<open>The iteration limit\<close>

lemma loop_outcome:
  "(res_failure (agent_loop gw invoke mx conv n) = None)
     = (res_text (agent_loop gw invoke mx conv n) \<noteq> None)"
  by (rule agent_loop_result_induct)
     (simp_all add: fail_turn_def finish_turn_def emit_before_def)

lemma loop_limit_iff:
  "n < mx \<longrightarrow>
     (res_failure (agent_loop gw invoke mx conv n) = Some IterationLimitExceeded)
       = tools_for gw invoke conv (mx - n)"
proof (induction gw invoke mx conv n rule: agent_loop.induct)
  case (1 gw invoke mx conv n)
  show ?case
  proof (intro impI)
    assume lt: "n < mx"
    then obtain k where k: "mx - n = Suc k" by (cases "mx - n") auto
    show "(res_failure (agent_loop gw invoke mx conv n) = Some IterationLimitExceeded)
            = tools_for gw invoke conv (mx - n)"
    proof (cases "gw (conv_messages conv)")
      case (FinalText frags)
      then show ?thesis
        by (simp add: agent_loop.simps [of gw invoke mx conv n] k finish_turn_def)
    next
      case (GatewayFailed e)
      then show ?thesis
        by (simp add: agent_loop.simps [of gw invoke mx conv n] k fail_turn_def)
    next
      case (ToolCallsRequested reqs)
      show ?thesis
      proof (cases "reqs = []")
        case True
        with ToolCallsRequested show ?thesis
          by (simp add: agent_loop.simps [of gw invoke mx conv n] k finish_turn_def)
      next
        case False
        show ?thesis
        proof (cases "mx \<le> Suc n")
          case True
          with k have "k = 0" by simp
          with True False ToolCallsRequested show ?thesis
            by (simp add: agent_loop.simps [of gw invoke mx conv n] k fail_turn_def)
        next
          case nolimit: False
          with k have k': "mx - Suc n = k" and lt': "Suc n < mx" by simp_all
          from "1.IH" [OF ToolCallsRequested False nolimit] lt' k'
          have "(res_failure (agent_loop gw invoke mx (append_results invoke reqs conv) (Suc n))
                  = Some IterationLimitExceeded)
                = tools_for gw invoke (append_results invoke reqs conv) k" by simp
          with nolimit False ToolCallsRequested show ?thesis
            by (simp add: agent_loop.simps [of gw invoke mx conv n] k emit_before_def)
        qed
      qed
    qed
  qed
qed

lemma loop_limit_shape:
  "res_failure (agent_loop gw invoke mx conv n) = Some IterationLimitExceeded \<longrightarrow>
     (\<exists>pre h reqs. reqs \<noteq> [] \<and> gw h = ToolCallsRequested reqs
        \<and> res_events (agent_loop gw invoke mx conv n)
            = pre @ tool_round invoke reqs
              @ [Done StatusError (res_iterations (agent_loop gw invoke mx conv n))]
        \<and> conv_messages (res_conversation (agent_loop gw invoke mx conv n))
            = h @ map (\<lambda>rq. ToolResultMessage (tr_id rq) (invoke rq)) reqs)"
proof (induction gw invoke mx conv n rule: agent_loop.induct)
  case (1 gw invoke mx conv n)
  show ?case
  proof (cases "gw (conv_messages conv)")
    case (FinalText frags)
    then show ?thesis
      by (simp add: agent_loop.simps [of gw invoke mx conv n] finish_turn_def)
  next
    case (GatewayFailed e)
    then show ?thesis
      by (simp add: agent_loop.simps [of gw invoke mx conv n] fail_turn_def)
  next
    case (ToolCallsRequested reqs)
    show ?thesis
    proof (cases "reqs = []")
      case True
      with ToolCallsRequested show ?thesis
        by (simp add: agent_loop.simps [of gw invoke mx conv n] finish_turn_def)
    next
      case False
      show ?thesis
      proof (cases "mx \<le> Suc n")
        case True
        have "reqs \<noteq> [] \<and> gw (conv_messages conv) = ToolCallsRequested reqs
          \<and> tool_round invoke reqs @ [Done StatusError (Suc n)]
              = [] @ tool_round invoke reqs @ [Done StatusError (Suc n)]
          \<and> conv_messages conv @ map (\<lambda>rq. ToolResultMessage (tr_id rq) (invoke rq)) reqs
              = conv_messages conv @ map (\<lambda>rq. ToolResultMessage (tr_id rq) (invoke rq)) reqs"
          using False ToolCallsRequested by simp
        then have "\<exists>pre h rs. rs \<noteq> [] \<and> gw h = ToolCallsRequested rs
          \<and> tool_round invoke reqs @ [Done StatusError (Suc n)]
              = pre @ tool_round invoke rs @ [Done StatusError (Suc n)]
          \<and> conv_messages conv @ map (\<lambda>rq. ToolResultMessage (tr_id rq) (invoke rq)) reqs
              = h @ map (\<lambda>rq. ToolResultMessage (tr_id rq) (invoke rq)) rs"
          by blast
        with True False ToolCallsRequested show ?thesis
          by (simp add: agent_loop.simps [of gw invoke mx conv n] fail_turn_def append_results_def)
      next
        case nolimit: False
        let ?r = "agent_loop gw invoke mx (append_results invoke reqs conv) (Suc n)"
        have eq: "agent_loop gw invoke mx conv n = emit_before (tool_round invoke reqs) ?r"
          using nolimit False ToolCallsRequested
          by (simp add: agent_loop.simps [of gw invoke mx conv n])
        show ?thesis
        proof
          assume "res_failure (agent_loop gw invoke mx conv n) = Some IterationLimitExceeded"
          then have "res_failure ?r = Some IterationLimitExceeded"
            by (simp add: eq emit_before_def)
          with "1.IH" [OF ToolCallsRequested False nolimit]
          obtain pre h rs where p: "rs \<noteq> []" "gw h = ToolCallsRequested rs"
            "res_events ?r = pre @ tool_round invoke rs @ [Done StatusError (res_iterations ?r)]"
            "conv_messages (res_conversation ?r)
               = h @ map (\<lambda>rq. ToolResultMessage (tr_id rq) (invoke rq)) rs"
            by blast
          then have "rs \<noteq> [] \<and> gw h = ToolCallsRequested rs
            \<and> res_events (agent_loop gw invoke mx conv n)
                = (tool_round invoke reqs @ pre) @ tool_round invoke rs
                  @ [Done StatusError (res_iterations (agent_loop gw invoke mx conv n))]
            \<and> conv_messages (res_conversation (agent_loop gw invoke mx conv n))
                = h @ map (\<lambda>rq. ToolResultMessage (tr_id rq) (invoke rq)) rs"
            by (simp add: eq emit_before_def)
          then show "\<exists>pre h reqs. reqs \<noteq> [] \<and> gw h = ToolCallsRequested reqs
            \<and> res_events (agent_loop gw invoke mx conv n)
                = pre @ tool_round invoke reqs
                  @ [Done StatusError (res_iterations (agent_loop gw invoke mx conv n))]
            \<and> conv_messages (res_conversation (agent_loop gw invoke mx conv n))
                = h @ map (\<lambda>rq. ToolResultMessage (tr_id rq) (invoke rq)) reqs"
            by blast
        qed
      qed
    qed
  qed
qed

text \<open>
  Claim C3.  For every turn with \<open>max_iterations\<close> in its documented range (at least
  1), the turn's iteration counter at the end is at most \<open>max_iterations\<close>, and the
  gateway is asked at most \<open>max_iterations\<close> times (one \<open>thinking\<close> event per call):
  the loop is a total function, it cannot run for ever.  The turn fails with
  \<open>IterationLimitExceeded\<close> exactly when the gateway asks for tools in each of its
  \<open>max_iterations\<close> round trips, that is, when one more round trip would take the
  counter past the limit.  Such a turn has counted exactly \<open>max_iterations\<close> round
  trips; its last round's \<open>tool_call\<close> and \<open>tool_result\<close> events are emitted and that
  round's ToolResult messages are the last of the conversation before the loop stops; it
  ends with \<open>done\<close> of status \<open>"error"\<close>, and its non-streaming answer has status
  \<open>"error"\<close>.  Every turn either completes with a text or fails, and the conversation
  holds, after the user message, one ToolResult message for every \<open>tool_result\<close> emitted
  and the final text if there is one.
\<close>

theorem iteration_limit:
  fixes gw invoke max_iterations conv msg
  defines "r \<equiv> run_turn gw invoke max_iterations conv msg"
  assumes "1 \<le> max_iterations"
  shows "res_iterations r \<le> max_iterations
    \<and> length (filter (\<lambda>e. e = Thinking) (res_events r)) \<le> max_iterations
    \<and> (res_failure r = Some IterationLimitExceeded)
        = tools_for gw invoke (conv\<lparr>conv_messages := conv_messages conv @ [UserMessage msg]\<rparr>)
            max_iterations
    \<and> (res_failure r = Some IterationLimitExceeded \<longrightarrow>
          res_iterations r = max_iterations
          \<and> ns_status (respond r) = js ''error''
          \<and> (\<exists>pre h reqs. reqs \<noteq> [] \<and> gw h = ToolCallsRequested reqs
                \<and> res_events r = pre @ tool_round invoke reqs @ [Done StatusError max_iterations]
                \<and> conv_messages (res_conversation r)
                    = h @ map (\<lambda>rq. ToolResultMessage (tr_id rq) (invoke rq)) reqs))
    \<and> (res_failure r = None) = (res_text r \<noteq> None)
    \<and> conv_messages (res_conversation r)
         = conv_messages conv @ [UserMessage msg]
           @ map (\<lambda>(rq, out). ToolResultMessage (tr_id rq) out) (tool_results_of (res_events r))
           @ (case res_text r of None \<Rightarrow> [] | Some t \<Rightarrow> [AssistantMessage t])"
proof -
  let ?c = "conv\<lparr>conv_messages := conv_messages conv @ [UserMessage msg]\<rparr>"
  have r: "r = agent_loop gw invoke max_iterations ?c 0"
    by (simp add: r_def run_turn_def)
  have pos: "0 < max_iterations" using assms(2) by simp
  from loop_bound [of 0 max_iterations gw invoke ?c] pos
  have b: "res_iterations r \<le> max_iterations"
    "length (filter (\<lambda>e. e = Thinking) (res_events r)) \<le> max_iterations"
    "res_failure r = Some IterationLimitExceeded \<longrightarrow> res_iterations r = max_iterations"
    unfolding r by simp_all
  from loop_limit_iff [of 0 max_iterations gw invoke ?c] pos
  have i: "(res_failure r = Some IterationLimitExceeded) = tools_for gw invoke ?c max_iterations"
    unfolding r by simp
  have st: "res_failure r = Some IterationLimitExceeded \<longrightarrow> ns_status (respond r) = js ''error''"
    by (simp add: respond_def)
  have sh: "res_failure r = Some IterationLimitExceeded \<longrightarrow>
          (\<exists>pre h reqs. reqs \<noteq> [] \<and> gw h = ToolCallsRequested reqs
                \<and> res_events r = pre @ tool_round invoke reqs @ [Done StatusError max_iterations]
                \<and> conv_messages (res_conversation r)
                    = h @ map (\<lambda>rq. ToolResultMessage (tr_id rq) (invoke rq)) reqs)"
  proof
    assume f: "res_failure r = Some IterationLimitExceeded"
    with b(3) have "res_iterations r = max_iterations" by simp
    with loop_limit_shape [of gw invoke max_iterations ?c 0, folded r] f
    show "\<exists>pre h reqs. reqs \<noteq> [] \<and> gw h = ToolCallsRequested reqs
                \<and> res_events r = pre @ tool_round invoke reqs @ [Done StatusError max_iterations]
                \<and> conv_messages (res_conversation r)
                    = h @ map (\<lambda>rq. ToolResultMessage (tr_id rq) (invoke rq)) reqs"
      by simp
  qed
  have o: "(res_failure r = None) = (res_text r \<noteq> None)"
    unfolding r by (rule loop_outcome)
  have h: "conv_messages (res_conversation r)
         = conv_messages conv @ [UserMessage msg]
           @ map (\<lambda>(rq, out). ToolResultMessage (tr_id rq) out) (tool_results_of (res_events r))
           @ (case res_text r of None \<Rightarrow> [] | Some t \<Rightarrow> [AssistantMessage t])"
    unfolding r using loop_history [of gw invoke max_iterations ?c 0] by simp
  from b(1) b(2) b(3) i st sh o h show ?thesis by simp
qed

text \<open>
  Scenario D of the specification: \<open>max_iterations = 1\<close> and a gateway that always asks
  for a tool.
\<close>

theorem iteration_limit_witness:
  "1 \<le> (1::nat)
   \<and> tools_for (\<lambda>h. ToolCallsRequested [\<lparr>tr_id = 0, tr_name = js ''policy_lookup'', tr_args = []\<rparr>])
        (\<lambda>rq. ToolSuccess [])
        (fresh_conversation\<lparr>conv_messages := conv_messages fresh_conversation @ [UserMessage (js ''hi'')]\<rparr>) 1
   \<and> res_failure (run_turn (\<lambda>h. ToolCallsRequested [\<lparr>tr_id = 0, tr_name = js ''policy_lookup'', tr_args = []\<rparr>])
        (\<lambda>rq. ToolSuccess []) 1 fresh_conversation (js ''hi'')) = Some IterationLimitExceeded
   \<and> res_iterations (run_turn (\<lambda>h. ToolCallsRequested [\<lparr>tr_id = 0, tr_name = js ''policy_lookup'', tr_args = []\<rparr>])
        (\<lambda>rq. ToolSuccess []) 1 fresh_conversation (js ''hi'')) = 1
   \<and> res_events (run_turn (\<lambda>h. ToolCallsRequested [\<lparr>tr_id = 0, tr_name = js ''policy_lookup'', tr_args = []\<rparr>])
        (\<lambda>rq. ToolSuccess []) 1 fresh_conversation (js ''hi''))
      = [Thinking, ToolCall \<lparr>tr_id = 0, tr_name = js ''policy_lookup'', tr_args = []\<rparr>,
         ToolResult \<lparr>tr_id = 0, tr_name = js ''policy_lookup'', tr_args = []\<rparr> (ToolSuccess []),
         Done StatusError 1]"
proof -
  have t: "tools_for (\<lambda>h. ToolCallsRequested [\<lparr>tr_id = 0, tr_name = js ''policy_lookup'', tr_args = []\<rparr>])
        (\<lambda>rq. ToolSuccess [])
        (fresh_conversation\<lparr>conv_messages := conv_messages fresh_conversation @ [UserMessage (js ''hi'')]\<rparr>) 1"
    by simp
  have e: "res_events (run_turn (\<lambda>h. ToolCallsRequested [\<lparr>tr_id = 0, tr_name = js ''policy_lookup'', tr_args = []\<rparr>])
        (\<lambda>rq. ToolSuccess []) 1 fresh_conversation (js ''hi''))
      = [Thinking, ToolCall \<lparr>tr_id = 0, tr_name = js ''policy_lookup'', tr_args = []\<rparr>,
         ToolResult \<lparr>tr_id = 0, tr_name = js ''policy_lookup'', tr_args = []\<rparr> (ToolSuccess []),
         Done StatusError 1]"
    by (simp add: run_turn_def agent_loop.simps fail_turn_def tool_round_def)
  from t e iteration_limit [of 1 "\<lambda>h. ToolCallsRequested [\<lparr>tr_id = 0, tr_name = js ''policy_lookup'', tr_args = []\<rparr>]"
      "\<lambda>rq. ToolSuccess []" fresh_conversation "js ''hi''"]
  show ?thesis by simp
qed

subsection \<open>Failures and the caller\<close>

lemma foldl_deliver_last:
  "evs \<noteq> [] \<Longrightarrow>
   foldl deliver s (map (encode cid cap) evs)
     = deliver (foldl deliver s (map (encode cid cap) (butlast evs))) (encode cid cap (last evs))"
proof -
  assume "evs \<noteq> []"
  then have "evs = butlast evs @ [last evs]" by simp
  then have "foldl deliver s (map (encode cid cap) evs)
      = foldl deliver s (map (encode cid cap) (butlast evs @ [last evs]))" by simp
  then show ?thesis by (simp del: append_butlast_last_id)
qed

lemma handle_error_event:
  "handleStreamEvent (js ''error'') d s = Returned (s\<lparr>error := Some stream_error_text\<rparr>)"
  by (simp add: handleStreamEvent_def handleError_def new_Error_def)



lemma failed_turn_terminal:
  "res_failure (run_turn gw invoke mx conv msg) = Some f \<longrightarrow>
     last (res_events (run_turn gw invoke mx conv msg))
       = failure_event f (res_iterations (run_turn gw invoke mx conv msg))
     \<and> ns_status (respond (run_turn gw invoke mx conv msg)) = js ''error''
     \<and> ns_error (respond (run_turn gw invoke mx conv msg)) = Some (describe f)"
  using loop_terminal [of gw invoke mx "conv\<lparr>conv_messages := conv_messages conv @ [UserMessage msg]\<rparr>" 0]
  by (simp add: run_turn_def respond_def)

lemma gateway_failure_recorded:
  "res_failure (run_turn gw invoke mx conv msg) = Some (GatewayError e) \<longrightarrow>
     error (foldl deliver s (map (encode cid caption) (res_events (run_turn gw invoke mx conv msg))))
       = Some stream_error_text"
proof
  let ?r = "run_turn gw invoke mx conv msg"
  assume f: "res_failure ?r = Some (GatewayError e)"
  have ne: "res_events ?r \<noteq> []"
    using loop_terminal [of gw invoke mx "conv\<lparr>conv_messages := conv_messages conv @ [UserMessage msg]\<rparr>" 0]
    by (simp add: run_turn_def)
  from failed_turn_terminal [of gw invoke mx conv msg "GatewayError e"] f
  have l: "last (res_events ?r) = Error (GatewayError e)" by simp
  show "error (foldl deliver s (map (encode cid caption) (res_events ?r))) = Some stream_error_text"
    unfolding foldl_deliver_last [OF ne] l by (simp add: deliver_Error)
qed

lemma scenario_D_events:
  "res_events scenario_D
     = [Thinking, ToolCall lookup_request, ToolResult lookup_request (ToolSuccess []),
        Done StatusError 1]"
  "res_failure scenario_D = Some IterationLimitExceeded"
  by (simp_all add: scenario_D_def run_turn_def agent_loop.simps fail_turn_def tool_round_def
      lookup_request_def)

text \<open>
  Claim C7.  A terminal failure should reach the caller and never be swallowed.  A
  failure of the gateway does: the stream ends with \<open>error\<close>, the non-streaming answer
  has status \<open>"error"\<close>, and the store's handler of \<open>error\<close> records the visible error
  text (lemmas \<open>failed_turn_terminal\<close>, \<open>gateway_failure_recorded\<close> and
  \<open>handle_error_event\<close>).  The iteration limit does not.  In scenario D the turn fails with
  \<open>IterationLimitExceeded\<close>, its non-streaming answer has status \<open>"error"\<close>, and its
  stream ends with \<open>done\<close> of status \<open>"error"\<close>; the store's \<open>done\<close> branch never reads
  the status, so after the events of that turn the store shows no error, and its history
  has gained an assistant message of undefined content.
\<close>

theorem iteration_limit_failure_swallowed:
  "res_failure scenario_D = Some IterationLimitExceeded
   \<and> ns_status (respond scenario_D) = js ''error''
   \<and> map (encode (js ''c1'') (\<lambda>e. None)) (res_events scenario_D)
       = [(js ''thinking'', no_data\<lparr>d_conversation_id := Some (js ''c1'')\<rparr>),
          (js ''tool_call'', no_data\<lparr>d_tool_name := Some (js ''policy_lookup'')\<rparr>),
          (js ''tool_result'', no_data\<lparr>d_tool_name := Some (js ''policy_lookup'')\<rparr>),
          (js ''done'', no_data\<lparr>d_status := Some (js ''error''), d_conversation_id := Some (js ''c1'')\<rparr>)]
   \<and> error (foldl deliver streaming_start
         (map (encode (js ''c1'') (\<lambda>e. None)) (res_events scenario_D))) = None
   \<and> conversationHistory (foldl deliver streaming_start
         (map (encode (js ''c1'') (\<lambda>e. None)) (res_events scenario_D)))
       = [\<lparr>msg_role = User, msg_content = Some (js ''hi'')\<rparr>,
          \<lparr>msg_role = Assistant, msg_content = None\<rparr>]"
proof -
  have enc: "map (encode (js ''c1'') (\<lambda>e. None)) (res_events scenario_D)
       = [(js ''thinking'', no_data\<lparr>d_conversation_id := Some (js ''c1'')\<rparr>),
          (js ''tool_call'', no_data\<lparr>d_tool_name := Some (js ''policy_lookup'')\<rparr>),
          (js ''tool_result'', no_data\<lparr>d_tool_name := Some (js ''policy_lookup'')\<rparr>),
          (js ''done'', no_data\<lparr>d_status := Some (js ''error''), d_conversation_id := Some (js ''c1'')\<rparr>)]"
    by (simp add: scenario_D_events encode.simps lookup_request_def no_data_def)
  have st: "ns_status (respond scenario_D) = js ''error''"
    by (simp add: respond_def scenario_D_events)
  have run: "foldl deliver streaming_start
         (map (encode (js ''c1'') (\<lambda>e. None)) (res_events scenario_D))
       = streaming_start\<lparr>conversationId := Some (js ''c1''),
           conversationHistory := [\<lparr>msg_role = User, msg_content = Some (js ''hi'')\<rparr>,
                                   \<lparr>msg_role = Assistant, msg_content = None\<rparr>],
           currentToolCalls := [\<lparr>tc_tool_name = js ''policy_lookup'', tc_status = Completed,
                                 tc_message = js ''policy_lookup'' @ finished_suffix\<rparr>],
           streamingProgress := js ''policy_lookup'' @ finished_suffix\<rparr>"
    unfolding enc
    by (simp add: deliver_def handleStreamEvent_def handle_done_def Let_def js_or_def str_or_def
        addMessage_def isReportResponse_def find_running_def no_data_def streaming_start_def
        initial_store_def)
  show ?thesis
    unfolding run using enc st
    by (simp add: scenario_D_events streaming_start_def initial_store_def)
qed

subsection \<open>Tool calls and their results\<close>

lemma running_names_empty:
  "running_names ts = [] \<longleftrightarrow> (\<forall>t\<in>set ts. tc_status t = Completed)"
proof -
  have "tc_status t \<noteq> Running \<longleftrightarrow> tc_status t = Completed" for t :: tool_entry
    by (cases "tc_status t") simp_all
  then show ?thesis by (simp add: running_names_def filter_empty_conv)
qed

text \<open>
  Claim C2.  In the events of a turn there are as many \<open>tool_result\<close> events as
  \<open>tool_call\<close> events, for the same requests in the same order, and every \<open>tool_result\<close>
  comes after its \<open>tool_call\<close>: it answers the oldest call still open, and no call stays
  open.  A client that starts the turn without tool entries (as \<open>sendMessageStream\<close>
  does) finds, at every \<open>tool_result\<close>, a running entry of that tool name; before the
  terminal event it holds one entry per \<open>tool_call\<close>, each of them completed.
\<close>

theorem tool_results_match_calls:
  fixes gw invoke max_iterations conv msg cid caption
  defines "evs \<equiv> res_events (run_turn gw invoke max_iterations conv msg)"
  defines "calls \<equiv> map (encode cid caption) evs"
  assumes "currentToolCalls s = []"
  shows "length (tool_calls_of evs) = length (tool_results_of evs)
    \<and> tool_calls_of evs = map fst (tool_results_of evs)
    \<and> results_follow_calls [] evs
    \<and> results_find_running s calls
    \<and> length (currentToolCalls (foldl deliver s (butlast calls))) = length (tool_calls_of evs)
    \<and> (\<forall>t\<in>set (currentToolCalls (foldl deliver s (butlast calls))). tc_status t = Completed)"
proof -
  let ?c = "conv\<lparr>conv_messages := conv_messages conv @ [UserMessage msg]\<rparr>"
  have evs: "evs = res_events (agent_loop gw invoke max_iterations ?c 0)"
    by (simp add: evs_def run_turn_def)
  have nr: "no_running s" using assms(3) by (simp add: no_running_def running_names_def)
  note a = loop_follow [of gw invoke max_iterations ?c 0, folded evs]
  from a have eq: "tool_calls_of evs = map fst (tool_results_of evs)" by simp
  then have len: "length (tool_calls_of evs) = length (tool_results_of evs)" by simp
  have bl: "butlast calls = map (encode cid caption) (butlast evs)"
    by (simp add: calls_def map_butlast)
  note lc = loop_client_tools [of cid caption gw invoke max_iterations ?c 0, folded evs,
      THEN spec, THEN mp, OF nr]
  have c: "results_find_running s calls"
    "no_running (foldl deliver s (butlast calls))"
    "length (currentToolCalls (foldl deliver s (butlast calls)))
       = length (currentToolCalls s) + length (tool_calls_of evs)"
    using lc by (simp_all add: calls_def map_butlast)
  from c(2) have compl: "\<forall>t\<in>set (currentToolCalls (foldl deliver s (butlast calls))). tc_status t = Completed"
    by (simp add: no_running_def running_names_empty)
  from a eq len c(1) c(3) compl assms(3) show ?thesis by simp
qed

text \<open>Scenario B of the specification: one tool call, then the final text.\<close>

theorem tool_results_match_calls_witness:
  "currentToolCalls initial_store = []
   \<and> tool_calls_of (res_events (run_turn
         (\<lambda>h. if length h \<le> 1
              then ToolCallsRequested [\<lparr>tr_id = 0, tr_name = js ''policy_lookup'', tr_args = []\<rparr>]
              else FinalText [js ''30%''])
         (\<lambda>rq. ToolSuccess []) 15 fresh_conversation (js ''hi'')))
       = [\<lparr>tr_id = 0, tr_name = js ''policy_lookup'', tr_args = []\<rparr>]
   \<and> results_find_running initial_store (map (encode (js ''c1'') (\<lambda>e. None))
        (res_events (run_turn
         (\<lambda>h. if length h \<le> 1
              then ToolCallsRequested [\<lparr>tr_id = 0, tr_name = js ''policy_lookup'', tr_args = []\<rparr>]
              else FinalText [js ''30%''])
         (\<lambda>rq. ToolSuccess []) 15 fresh_conversation (js ''hi''))))"
proof -
  have e: "currentToolCalls initial_store = []" by (simp add: initial_store_def)
  have c: "tool_calls_of (res_events (run_turn
         (\<lambda>h. if length h \<le> 1
              then ToolCallsRequested [\<lparr>tr_id = 0, tr_name = js ''policy_lookup'', tr_args = []\<rparr>]
              else FinalText [js ''30%''])
         (\<lambda>rq. ToolSuccess []) 15 fresh_conversation (js ''hi'')))
       = [\<lparr>tr_id = 0, tr_name = js ''policy_lookup'', tr_args = []\<rparr>]"
    by (simp add: run_turn_def agent_loop.simps fresh_conversation_def append_results_def
        emit_before_def finish_turn_def tool_round_def)
  from e c tool_results_match_calls [OF e, where cid = "js ''c1''" and caption = "\<lambda>e. None"
      and gw = "\<lambda>h. if length h \<le> 1
              then ToolCallsRequested [\<lparr>tr_id = 0, tr_name = js ''policy_lookup'', tr_args = []\<rparr>]
              else FinalText [js ''30%'']"
      and invoke = "\<lambda>rq. ToolSuccess []" and max_iterations = 15 and conv = fresh_conversation
      and msg = "js ''hi''"]
  show ?thesis by simp
qed

subsection \<open>The streamed text and the assistant message\<close>

lemma deliver_history:
  "\<not> (\<exists>st n. e = Done st n) \<Longrightarrow>
   conversationHistory (deliver s (encode cid cap e)) = conversationHistory s"
  by (cases e)
     (simp_all add: deliver_Thinking deliver_ToolCall deliver_ResponseStart deliver_ResponseChunk
        deliver_ResponseEnd deliver_Error,
      simp add: deliver_def handleStreamEvent_def encode.simps Let_def)

lemma fold_history:
  "\<forall>e\<in>set evs. \<not> is_terminal e \<Longrightarrow>
   conversationHistory (foldl deliver s (map (encode cid cap) evs)) = conversationHistory s"
proof (induction evs arbitrary: s)
  case Nil
  show ?case by simp
next
  case (Cons e evs)
  from Cons.prems have "\<not> (\<exists>st n. e = Done st n)" by auto
  from deliver_history [OF this] Cons show ?case by simp
qed

lemma handle_done_history:
  "conversationHistory (state_of (handle_done d s))
     = conversationHistory s
       @ [\<lparr>msg_role = Assistant,
           msg_content = (if streamingMessage s \<noteq> [] then Some (streamingMessage s)
                          else js_or (d_response d) (d_message d))\<rparr>]"
  by (simp add: handle_done_def Let_def addMessage_def js_or_def split: option.splits)

lemma handle_chunk_event:
  "handleStreamEvent (js ''response_chunk'') d s
     = Returned (s\<lparr>streamingMessage :=
          streamingMessage s @ str_or (js_or (d_content d) (d_message d)) []\<rparr>)"
  by (simp add: handleStreamEvent_def)

lemma handle_done_event:
  "handleStreamEvent (js ''done'') d s = handle_done d s"
  by (simp add: handleStreamEvent_def)



lemma nonempty_text_recorded:
  fixes gw invoke max_iterations conv msg cid caption
  defines "r \<equiv> run_turn gw invoke max_iterations conv msg"
  defines "calls \<equiv> map (encode cid caption) (res_events r)"
  shows "(ResponseEnd full \<in> set (res_events r) \<longrightarrow> concat (chunk_contents (res_events r)) = full)
    \<and> streamingMessage (foldl deliver s (butlast calls))
        = streamingMessage s @ concat (chunk_contents (res_events r))
    \<and> (res_text r = Some t \<and> t \<noteq> [] \<and> streamingMessage s = [] \<longrightarrow>
          conversationHistory (foldl deliver s calls)
            = conversationHistory s @ [\<lparr>msg_role = Assistant, msg_content = Some t\<rparr>])"
proof -
  let ?c = "conv\<lparr>conv_messages := conv_messages conv @ [UserMessage msg]\<rparr>"
  have r: "r = agent_loop gw invoke max_iterations ?c 0"
    by (simp add: r_def run_turn_def)
  note ch = loop_chunks [of gw invoke max_iterations ?c 0, folded r]
  note tx = loop_client_text [of gw invoke max_iterations ?c 0 cid caption, folded r]
  note tm = loop_terminal [of gw invoke max_iterations ?c 0, folded r]
  note oc = loop_outcome [of gw invoke max_iterations ?c 0, folded r]
  have bl: "butlast calls = map (encode cid caption) (butlast (res_events r))"
    by (simp add: calls_def map_butlast)
  have p1: "ResponseEnd full \<in> set (res_events r) \<longrightarrow> concat (chunk_contents (res_events r)) = full"
    using ch by auto
  have p2: "streamingMessage (foldl deliver s' (butlast calls))
        = streamingMessage s' @ concat (chunk_contents (res_events r))" for s'
    unfolding bl using tx by simp
  have p3: "conversationHistory (foldl deliver s calls)
            = conversationHistory s @ [\<lparr>msg_role = Assistant, msg_content = Some t\<rparr>]"
    if t: "res_text r = Some t" and ne: "t \<noteq> []" and em: "streamingMessage s = []"
  proof -
    let ?pre = "foldl deliver s (map (encode cid caption) (butlast (res_events r)))"
    from t oc have nf: "res_failure r = None" by simp
    with tm have l: "last (res_events r) = Done StatusSuccess (res_iterations r)"
      and nz: "res_events r \<noteq> []"
      and nt: "\<forall>e\<in>set (butlast (res_events r)). \<not> is_terminal e" by simp_all
    from ch t have cc: "concat (chunk_contents (res_events r)) = t" by simp
    have sm: "streamingMessage ?pre = t"
      using p2 [of s] em cc unfolding bl by simp
    have hi: "conversationHistory ?pre = conversationHistory s"
      by (rule fold_history [OF nt])
    have "foldl deliver s calls = deliver ?pre (encode cid caption (Done StatusSuccess (res_iterations r)))"
      unfolding calls_def foldl_deliver_last [OF nz] l ..
    then show ?thesis
      using sm hi ne by (simp add: deliver_Done handle_done_history)
  qed
  from p1 p2 [of s] p3 show ?thesis by simp
qed

lemma empty_answer_events:
  "res_events empty_answer
     = [Thinking, ResponseStart 1, ResponseChunk [], ResponseEnd [], Done StatusSuccess 1]"
  "res_text empty_answer = Some []"
  by (simp_all add: empty_answer_def run_turn_def agent_loop.simps finish_turn_def)

text \<open>
  Claim C1.  The concatenation of the \<open>response_chunk\<close> contents of a turn is the
  \<open>full_response\<close> of its \<open>response_end\<close>, and the assistant message that the store
  records at \<open>done\<close> should be that concatenation.  It is for every turn that completes
  with a non-empty text (lemma \<open>nonempty_text_recorded\<close>).  Here the turn completes with
  the empty text, which the loop treats as a normal completion: it streams one empty
  chunk, the concatenation and the \<open>full_response\<close> are the empty string, and the store
  records an assistant message whose content is undefined, not the empty string.
\<close>

theorem empty_text_turn_records_undefined:
  "res_text empty_answer = Some []
   \<and> res_events empty_answer
       = [Thinking, ResponseStart 1, ResponseChunk [], ResponseEnd [], Done StatusSuccess 1]
   \<and> concat (chunk_contents (res_events empty_answer)) = []
   \<and> conversationHistory (foldl deliver streaming_start
         (map (encode (js ''c1'') (\<lambda>e. None)) (res_events empty_answer)))
       = [\<lparr>msg_role = User, msg_content = Some (js ''hi'')\<rparr>,
          \<lparr>msg_role = Assistant, msg_content = None\<rparr>]
   \<and> handleStreamEvent (js ''done'')
         (no_data\<lparr>d_status := Some (js ''success''), d_conversation_id := Some (js ''c1'')\<rparr>)
         (streaming_start\<lparr>conversationId := None\<rparr>)
       = Thrown (streaming_start\<lparr>conversationId := Some (js ''c1''),
           conversationHistory := [\<lparr>msg_role = User, msg_content = Some (js ''hi'')\<rparr>,
                                   \<lparr>msg_role = Assistant, msg_content = None\<rparr>]\<rparr>)"
  by (simp add: empty_answer_events deliver_Thinking deliver_ResponseStart deliver_ResponseChunk
      deliver_ResponseEnd deliver_Done handle_done_history handleStreamEvent_def handle_done_def
      Let_def js_or_def addMessage_def isReportResponse_def streaming_start_def initial_store_def
      no_data_def)

subsection \<open>The end of a turn\<close>

text \<open>
  Claim C4.  After \<open>done\<close> the streaming state should be empty.  Here the store handles
  the \<open>done\<close> event of the wire protocol (it carries \<open>conversation_id\<close>, no \<open>response\<close>
  and no \<open>message\<close>) after a round with a tool and no streamed text: the assistant
  message is recorded with an undefined content, \<open>isReportResponse\<close> throws on it, and
  the clean-up that follows in the source is not reached: the tool entry stays.
\<close>

theorem done_without_text_skips_cleanup:
  "handleStreamEvent (js ''done'') (no_data\<lparr>d_conversation_id := Some (js ''c1'')\<rparr>) after_tool_round
     = Thrown (after_tool_round\<lparr>conversationId := Some (js ''c1''),
         conversationHistory := [\<lparr>msg_role = User, msg_content = Some (js ''hi'')\<rparr>,
                                 \<lparr>msg_role = Assistant, msg_content = None\<rparr>]\<rparr>)
   \<and> currentToolCalls (state_of (handleStreamEvent (js ''done'')
         (no_data\<lparr>d_conversation_id := Some (js ''c1'')\<rparr>) after_tool_round)) \<noteq> []"
  by (simp add: handleStreamEvent_def handle_done_def Let_def js_or_def addMessage_def
      isReportResponse_def no_data_def after_tool_round_def initial_store_def js_def)

subsection \<open>The event-stream reader: what reaches the callback\<close>

lemma process_line_cases:
  "process_line parse cur l = (ev, calls) \<Longrightarrow>
     (is_event_line l \<and> ev = Some (drop 7 (trim l)) \<and> calls = [])
   \<or> (\<not> is_event_line l \<and> is_data_line l \<and> ev = cur \<and> trim l \<noteq> []
        \<and> (calls = [] \<or> (\<exists>e d. cur = Some e \<and> parse (drop 6 (trim l)) = Some d \<and> calls = [(e, d)])))
   \<or> (\<not> is_event_line l \<and> \<not> is_data_line l \<and> trim l = [] \<and> ev = None \<and> calls = [])
   \<or> (\<not> is_event_line l \<and> \<not> is_data_line l \<and> trim l \<noteq> [] \<and> ev = cur \<and> calls = [])"
  by (cases cur)
     (auto simp: process_line_def Let_def is_event_line_def is_data_line_def js_data_prefix
        split: if_splits option.splits)

lemma callbacks_origin:
  "(e, d) \<in> set (snd (process_lines parse cur ls)) \<Longrightarrow>
     (\<exists>mid dl post. ls = mid @ dl # post \<and> cur = Some e
        \<and> (\<forall>m\<in>set mid. trim m \<noteq> [] \<and> \<not> is_event_line m)
        \<and> is_data_line dl \<and> parse (drop 6 (trim dl)) = Some d)
   \<or> (\<exists>pre el mid dl post. ls = pre @ el # mid @ dl # post
        \<and> is_event_line el \<and> e = drop 7 (trim el)
        \<and> (\<forall>m\<in>set mid. trim m \<noteq> [] \<and> \<not> is_event_line m)
        \<and> is_data_line dl \<and> parse (drop 6 (trim dl)) = Some d)"
proof (induction ls arbitrary: cur)
  case Nil
  then show ?case by simp
next
  case (Cons l ls)
  obtain ev calls where pl: "process_line parse cur l = (ev, calls)"
    by (cases "process_line parse cur l")
  note pc = process_line_cases [OF pl]
  from Cons.prems pl have "(e, d) \<in> set calls \<or> (e, d) \<in> set (snd (process_lines parse ev ls))"
    by (auto simp: Let_def split: prod.splits)
  then show ?case
  proof
    assume "(e, d) \<in> set calls"
    with pc have "cur = Some e \<and> is_data_line l \<and> parse (drop 6 (trim l)) = Some d"
      by auto
    then have "l # ls = [] @ l # ls \<and> cur = Some e
        \<and> (\<forall>m\<in>set []. trim m \<noteq> [] \<and> \<not> is_event_line m)
        \<and> is_data_line l \<and> parse (drop 6 (trim l)) = Some d" by simp
    then show ?thesis by blast
  next
    assume "(e, d) \<in> set (snd (process_lines parse ev ls))"
    from Cons.IH [OF this] show ?thesis
    proof (elim disjE exE conjE)
      fix mid dl post
      assume ls: "ls = mid @ dl # post" and ev: "ev = Some e"
        and q: "\<forall>m\<in>set mid. trim m \<noteq> [] \<and> \<not> is_event_line m"
        and dl: "is_data_line dl" "parse (drop 6 (trim dl)) = Some d"
      from pc ev consider
          (event) "is_event_line l" "e = drop 7 (trim l)"
        | (keep) "\<not> is_event_line l" "trim l \<noteq> []" "cur = Some e"
        by auto
      then show ?thesis
      proof cases
        case event
        with ls q dl have "l # ls = [] @ l # mid @ dl # post \<and> is_event_line l \<and> e = drop 7 (trim l)
          \<and> (\<forall>m\<in>set mid. trim m \<noteq> [] \<and> \<not> is_event_line m)
          \<and> is_data_line dl \<and> parse (drop 6 (trim dl)) = Some d" by simp
        then show ?thesis by blast
      next
        case keep
        with ls q dl have "l # ls = (l # mid) @ dl # post \<and> cur = Some e
          \<and> (\<forall>m\<in>set (l # mid). trim m \<noteq> [] \<and> \<not> is_event_line m)
          \<and> is_data_line dl \<and> parse (drop 6 (trim dl)) = Some d" by simp
        then show ?thesis by blast
      qed
    next
      fix pre el mid dl post
      assume "ls = pre @ el # mid @ dl # post" "is_event_line el" "e = drop 7 (trim el)"
        "\<forall>m\<in>set mid. trim m \<noteq> [] \<and> \<not> is_event_line m"
        "is_data_line dl" "parse (drop 6 (trim dl)) = Some d"
      then have "l # ls = (l # pre) @ el # mid @ dl # post \<and> is_event_line el \<and> e = drop 7 (trim el)
          \<and> (\<forall>m\<in>set mid. trim m \<noteq> [] \<and> \<not> is_event_line m)
          \<and> is_data_line dl \<and> parse (drop 6 (trim dl)) = Some d" by simp
      then show ?thesis by blast
    qed
  qed
qed

lemma sse_callbacks_lines:
  "sse_callbacks parse chunks = snd (process_lines parse None (butlast (split_nl (concat chunks))))"
  using read_loop_lines [of "[]" parse None chunks] by (simp add: sse_callbacks_def)

text \<open>
  Claim C9.  The callback invocations of \<open>sendChatMessageStream\<close> are those of the
  complete lines of the whole text, processed from no current event: the last, unfinished
  line stays in the buffer, so two ways of cutting the same stream into chunks give the
  same invocations.  Every invocation \<open>(e, d)\<close> comes from a data line with payload \<open>d\<close>
  that follows an event line for \<open>e\<close> with no blank line and no other event line in
  between, that is, in the same event block.  Lines without an event line give no
  invocation, a blank line clears the current event, and a data line whose payload does
  not parse is skipped: the reader goes on with the rest as if the line were not there.
\<close>

theorem sse_reader:
  "sse_callbacks parse chunks = snd (process_lines parse None (butlast (split_nl (concat chunks))))
   \<and> (concat chunks = concat chunks' \<longrightarrow> sse_callbacks parse chunks = sse_callbacks parse chunks')
   \<and> ((e, d) \<in> set (sse_callbacks parse chunks) \<longrightarrow>
        (\<exists>pre el mid dl post.
            butlast (split_nl (concat chunks)) = pre @ el # mid @ dl # post
          \<and> is_event_line el \<and> e = drop 7 (trim el)
          \<and> (\<forall>m\<in>set mid. trim m \<noteq> [] \<and> \<not> is_event_line m)
          \<and> is_data_line dl \<and> parse (drop 6 (trim dl)) = Some d))
   \<and> ((\<forall>l\<in>set ls. \<not> is_event_line l) \<longrightarrow> process_lines parse None ls = (None, []))
   \<and> (trim b = [] \<longrightarrow> process_line parse cur b = (None, []))
   \<and> (is_data_line l \<and> parse (drop 6 (trim l)) = None \<longrightarrow>
        process_lines parse cur (l # ls) = process_lines parse cur ls)"
proof -
  have a: "sse_callbacks parse chunks' = snd (process_lines parse None (butlast (split_nl (concat chunks'))))"
    by (rule sse_callbacks_lines)
  have c: "(e, d) \<in> set (sse_callbacks parse chunks) \<longrightarrow>
        (\<exists>pre el mid dl post.
            butlast (split_nl (concat chunks)) = pre @ el # mid @ dl # post
          \<and> is_event_line el \<and> e = drop 7 (trim el)
          \<and> (\<forall>m\<in>set mid. trim m \<noteq> [] \<and> \<not> is_event_line m)
          \<and> is_data_line dl \<and> parse (drop 6 (trim dl)) = Some d)"
    unfolding sse_callbacks_lines using callbacks_origin [of e d parse None] by simp
  have f: "is_data_line l \<and> parse (drop 6 (trim l)) = None \<longrightarrow>
        process_lines parse cur (l # ls) = process_lines parse cur ls"
    by (simp add: process_line_bad_json)
  from a c f show ?thesis
    by (simp add: sse_callbacks_lines process_lines_no_event process_line_blank)
qed

text \<open>The example stream: one invocation, whichever way it is cut.\<close>

theorem sse_reader_witness:
  "concat example_stream = concat example_text
   \<and> sse_callbacks example_parse example_stream = sse_callbacks example_parse example_text
   \<and> sse_callbacks example_parse example_stream = [(js ''done'', 1)]
   \<and> \<not> is_event_line (js ''data: x'')
   \<and> process_lines example_parse None [js ''data: x''] = (None, [])
   \<and> trim [32, 13] = []
   \<and> process_line example_parse (Some (js ''done'')) [32, 13] = (None, [])
   \<and> is_data_line (js ''data: y'') \<and> example_parse (drop 6 (trim (js ''data: y''))) = None
   \<and> process_lines example_parse (Some (js ''done'')) [js ''data: y'', js ''data: x'']
       = process_lines example_parse (Some (js ''done'')) [js ''data: x'']"
proof -
  have h1: "concat example_stream = concat example_text"
    by (simp add: example_stream_def example_text_def js_def)
  have sp: "butlast (split_nl (concat example_stream))
              = [js ''event: done'' @ [13], js ''data: x'', [], js ''data: x'']"
    by (simp add: example_stream_def js_def)
  have t1: "trim (js ''event: done'' @ [13]) = js ''event: done''"
    by (simp add: trim_def is_space_def js_def)
  have t2: "trim (js ''data: x'') = js ''data: x''"
    by (simp add: trim_def is_space_def js_def)
  have t3: "trim (js ''data: y'') = js ''data: y''"
    by (simp add: trim_def is_space_def js_def)
  have t4: "trim [] = []" "trim [32, 13] = []"
    by (simp_all add: trim_def is_space_def)
  have p1: "process_line example_parse None (js ''event: done'' @ [13]) = (Some (js ''done''), [])"
    unfolding process_line_def t1 by (simp add: js_def)
  have p2: "process_line example_parse (Some (js ''done'')) (js ''data: x'') = (Some (js ''done''), [(js ''done'', 1)])"
    unfolding process_line_def t2 by (simp add: js_def example_parse_def)
  have p3: "process_line example_parse (Some (js ''done'')) [] = (None, [])"
    unfolding process_line_def t4 by (simp add: js_def)
  have p4: "process_line example_parse None (js ''data: x'') = (None, [])"
    unfolding process_line_def t2 by (simp add: js_def)
  have h2: "sse_callbacks example_parse example_stream = [(js ''done'', 1)]"
    unfolding sse_callbacks_lines sp by (simp add: p1 p2 p3 p4)
  have h3: "\<forall>l\<in>set [js ''data: x'']. \<not> is_event_line l"
    by (simp add: is_event_line_def t2) (simp add: js_def)
  have h5: "is_data_line (js ''data: y'') \<and> example_parse (drop 6 (trim (js ''data: y''))) = None"
    unfolding is_data_line_def t3 by (simp add: js_def example_parse_def)
  have m: "(js ''done'', 1) \<in> set (sse_callbacks example_parse example_stream)"
    unfolding h2 by simp
  note th = sse_reader [where parse = example_parse and chunks = example_stream
      and chunks' = example_text and e = "js ''done''" and d = 1 and ls = "[js ''data: x'']"
      and b = "[32, 13]" and cur = "Some (js ''done'')" and l = "js ''data: y''"]
  from th h1 have c2: "sse_callbacks example_parse example_stream = sse_callbacks example_parse example_text"
    by blast
  from th h3 have c4: "process_lines example_parse None [js ''data: x''] = (None, [])"
    by blast
  from th t4(2) have c5: "process_line example_parse (Some (js ''done'')) [32, 13] = (None, [])"
    by blast
  from th h5 have c6: "process_lines example_parse (Some (js ''done'')) [js ''data: y'', js ''data: x'']
       = process_lines example_parse (Some (js ''done'')) [js ''data: x'']"
    by blast
  from h3 have h3': "\<not> is_event_line (js ''data: x'')" by simp
  from h1 c2 h2 h3' c4 t4(2) c5 h5 c6 show ?thesis by blast
qed

subsection \<open>When the store shows a report\<close>

lemma startsWith_iff: "startsWith s p \<longleftrightarrow> (\<exists>b. s = p @ b)"
  by (induction s p rule: startsWith.induct) auto

lemma str_includes_iff: "str_includes s t \<longleftrightarrow> (\<exists>a b. s = a @ t @ b)"
proof (induction s)
  case Nil
  show ?case by auto
next
  case (Cons c cs)
  have "(\<exists>a b. c # cs = a @ t @ b) \<longleftrightarrow> (\<exists>b. c # cs = t @ b) \<or> (\<exists>a b. cs = a @ t @ b)"
  proof
    assume "\<exists>a b. c # cs = a @ t @ b"
    then obtain a b where ab: "c # cs = a @ t @ b" by blast
    show "(\<exists>b. c # cs = t @ b) \<or> (\<exists>a b. cs = a @ t @ b)"
    proof (cases a)
      case Nil
      with ab show ?thesis by auto
    next
      case (Cons x a')
      with ab have "cs = a' @ t @ b" by simp
      then show ?thesis by blast
    qed
  next
    assume "(\<exists>b. c # cs = t @ b) \<or> (\<exists>a b. cs = a @ t @ b)"
    then show "\<exists>a b. c # cs = a @ t @ b"
    proof
      assume "\<exists>b. c # cs = t @ b"
      then obtain b where "c # cs = [] @ t @ b" by auto
      then show ?thesis by blast
    next
      assume "\<exists>a b. cs = a @ t @ b"
      then obtain a b where "c # cs = (c # a) @ t @ b" by auto
      then show ?thesis by blast
    qed
  qed
  with Cons show ?case by (simp add: startsWith_iff)
qed

lemma handle_done_report:
  "isReportResponse (js_or (js_or (Some (streamingMessage s)) (d_response d)) (d_message d)) = Some True
   \<Longrightarrow> currentStep (state_of (handle_done d s)) = StepResult
     \<and> reportData (state_of (handle_done d s))
         = Some \<lparr>report_content = the (js_or (js_or (Some (streamingMessage s)) (d_response d)) (d_message d)),
                 report_conversationId = d_conversation_id d\<rparr>"
  by (simp add: handle_done_def Let_def addMessage_def split: option.splits)

lemma handle_done_no_report:
  "isReportResponse (js_or (js_or (Some (streamingMessage s)) (d_response d)) (d_message d)) \<noteq> Some True
   \<Longrightarrow> currentStep (state_of (handle_done d s)) = currentStep s
     \<and> reportData (state_of (handle_done d s)) = reportData s"
  by (auto simp add: handle_done_def Let_def addMessage_def split: option.splits)

lemma other_events_keep_step:
  "e \<noteq> js ''done'' \<Longrightarrow> e \<noteq> js ''complete'' \<Longrightarrow>
   currentStep (state_of (handleStreamEvent e d s)) = currentStep s
   \<and> reportData (state_of (handleStreamEvent e d s)) = reportData s"
  by (simp add: handleStreamEvent_def Let_def handleError_def)

text \<open>
  Claim C10.  \<open>fullMessage\<close> is the assistant message that the \<open>done\<close> (or \<open>complete\<close>)
  branch assembles.  \<open>isReportResponse\<close> holds of it exactly when it is a string that
  contains one of the three report markers.  Handling an event moves the store to the
  result step and sets \<open>reportData\<close> (to that message and the event's conversation id)
  when the event is \<open>done\<close> or \<open>complete\<close> and the message is a report; in every other
  case, whatever the event, the current step (so \<open>chat\<close> during a turn) and \<open>reportData\<close>
  stay as they were.
\<close>

theorem report_step_only_on_markers:
  fixes e d s
  defines "fullMessage \<equiv> js_or (js_or (Some (streamingMessage s)) (d_response d)) (d_message d)"
  defines "s' \<equiv> state_of (handleStreamEvent e d s)"
  shows "((isReportResponse fullMessage = Some True)
           = (\<exists>t. fullMessage = Some t
                \<and> ((\<exists>a b. t = a @ marker_report @ b) \<or> (\<exists>a b. t = a @ marker_total_cost @ b)
                     \<or> (\<exists>a b. t = a @ marker_monthly @ b))))
    \<and> ((e = js ''done'' \<or> e = js ''complete'') \<and> isReportResponse fullMessage = Some True \<longrightarrow>
          currentStep s' = StepResult
          \<and> reportData s' = Some \<lparr>report_content = the fullMessage,
                                   report_conversationId = d_conversation_id d\<rparr>)
    \<and> (\<not> ((e = js ''done'' \<or> e = js ''complete'') \<and> isReportResponse fullMessage = Some True) \<longrightarrow>
          currentStep s' = currentStep s \<and> reportData s' = reportData s)"
proof -
  have a: "(isReportResponse fullMessage = Some True)
           = (\<exists>t. fullMessage = Some t
                \<and> ((\<exists>a b. t = a @ marker_report @ b) \<or> (\<exists>a b. t = a @ marker_total_cost @ b)
                     \<or> (\<exists>a b. t = a @ marker_monthly @ b)))"
    by (cases fullMessage) (simp_all add: isReportResponse_def str_includes_iff)
  have b: "currentStep s' = StepResult
          \<and> reportData s' = Some \<lparr>report_content = the fullMessage,
                                   report_conversationId = d_conversation_id d\<rparr>"
    if "e = js ''done'' \<or> e = js ''complete''" "isReportResponse fullMessage = Some True"
  proof -
    from that(1) have "handleStreamEvent e d s = handle_done d s"
      by (auto simp: handleStreamEvent_def)
    with handle_done_report [of s d] that(2) show ?thesis
      by (simp add: s'_def fullMessage_def)
  qed
  have c: "currentStep s' = currentStep s \<and> reportData s' = reportData s"
    if n: "\<not> ((e = js ''done'' \<or> e = js ''complete'') \<and> isReportResponse fullMessage = Some True)"
  proof (cases "e = js ''done'' \<or> e = js ''complete''")
    case True
    then have "handleStreamEvent e d s = handle_done d s"
      by (auto simp: handleStreamEvent_def)
    with handle_done_no_report [of s d] n True show ?thesis
      by (simp add: s'_def fullMessage_def)
  next
    case False
    with other_events_keep_step [of e d s] show ?thesis by (simp add: s'_def)
  qed
  from a b c show ?thesis by blast
qed

text \<open>A turn whose text contains a marker, and a turn whose text does not.\<close>

theorem report_step_only_on_markers_witness:
  "isReportResponse (Some (js ''# '' @ marker_total_cost)) = Some True
   \<and> currentStep (state_of (handleStreamEvent (js ''done'') no_data report_state)) = StepResult
   \<and> reportData (state_of (handleStreamEvent (js ''done'') no_data report_state))
       = Some \<lparr>report_content = js ''# '' @ marker_total_cost, report_conversationId = None\<rparr>
   \<and> isReportResponse (Some (js ''30%'')) = Some False
   \<and> currentStep (state_of (handleStreamEvent (js ''done'') no_data answer_state)) = StepChat
   \<and> reportData (state_of (handleStreamEvent (js ''done'') no_data answer_state)) = None"
proof -
  have f1: "js_or (js_or (Some (streamingMessage report_state)) (d_response no_data)) (d_message no_data)
              = Some (js ''# '' @ marker_total_cost)"
    by (simp add: report_state_def no_data_def js_or_def)
  have f2: "js_or (js_or (Some (streamingMessage answer_state)) (d_response no_data)) (d_message no_data)
              = Some (js ''30%'')"
    by (simp add: answer_state_def no_data_def js_or_def)
  have r1: "isReportResponse (Some (js ''# '' @ marker_total_cost)) = Some True"
    by (simp add: isReportResponse_def marker_total_cost_def marker_report_def marker_monthly_def js_def)
  have r2: "isReportResponse (Some (js ''30%'')) = Some False"
    by (simp add: isReportResponse_def marker_total_cost_def marker_report_def marker_monthly_def js_def)
  note t1 = report_step_only_on_markers [where e = "js ''done''" and d = no_data and s = report_state,
      unfolded f1]
  note t2 = report_step_only_on_markers [where e = "js ''done''" and d = no_data and s = answer_state,
      unfolded f2]
  from t1 r1 have a: "currentStep (state_of (handleStreamEvent (js ''done'') no_data report_state)) = StepResult
     \<and> reportData (state_of (handleStreamEvent (js ''done'') no_data report_state))
       = Some \<lparr>report_content = js ''# '' @ marker_total_cost, report_conversationId = None\<rparr>"
    by (simp add: no_data_def)
  from t2 r2 have b: "currentStep (state_of (handleStreamEvent (js ''done'') no_data answer_state)) = StepChat
     \<and> reportData (state_of (handleStreamEvent (js ''done'') no_data answer_state)) = None"
    by (simp add: answer_state_def initial_store_def)
  from r1 r2 a b show ?thesis by simp
qed

subsection \<open>A failed send and the conversation history\<close>

lemma deliver_other_history:
  "fst c \<noteq> js ''done'' \<Longrightarrow> fst c \<noteq> js ''complete'' \<Longrightarrow>
   conversationHistory (deliver s c) = conversationHistory s"
  by (simp add: deliver_def handleStreamEvent_def Let_def handleError_def)

lemma fold_other_history:
  "\<forall>c\<in>set cs. fst c \<noteq> js ''done'' \<and> fst c \<noteq> js ''complete'' \<Longrightarrow>
   conversationHistory (foldl deliver s cs) = conversationHistory s"
  by (induction cs arbitrary: s) (simp_all add: deliver_other_history)

lemma handleError_fields:
  "conversationHistory (handleError m e s) = conversationHistory s"
  "error (handleError m e s) \<noteq> None"
  by (simp_all add: handleError_def)

lemma send_catch_user:
  "conversationHistory s = h @ [\<lparr>msg_role = User, msg_content = c\<rparr>] \<Longrightarrow>
   conversationHistory (send_catch m e s) = h
   \<and> currentStep (send_catch m e s) = StepInput
   \<and> error (send_catch m e s) \<noteq> None"
  by (auto simp: send_catch_def Let_def handleError_def)

lemma send_catch_step:
  "currentStep (send_catch m e s) = StepInput \<and> error (send_catch m e s) \<noteq> None"
  by (auto simp: send_catch_def Let_def handleError_def)

lemma trim_plain:
  "trim (js ''hi'') = js ''hi''"
  "trim (js ''event: response_chunk'') = js ''event: response_chunk''"
  "trim (js ''event: done'') = js ''event: done''"
  "trim (js ''data: 1'') = js ''data: 1''"
  "trim (js ''data: 2'') = js ''data: 2''"
  "trim [] = []"
  by (simp_all add: trim_def is_space_def js_def)

lemma example_lines:
  "process_line events_parse cur (js ''event: response_chunk'') = (Some (js ''response_chunk''), [])"
  "process_line events_parse cur (js ''event: done'') = (Some (js ''done''), [])"
  "process_line events_parse (Some (js ''response_chunk'')) (js ''data: 1'')
     = (Some (js ''response_chunk''), [(js ''response_chunk'', chunk_payload)])"
  "process_line events_parse (Some (js ''done'')) (js ''data: 2'')
     = (Some (js ''done''), [(js ''done'', done_payload)])"
  "process_line events_parse cur [] = (None, [])"
  unfolding process_line_def trim_plain by (simp_all add: js_def events_parse_def)

lemma callbacks_before_done:
  "sse_callbacks events_parse (sr_chunks (broken_before_done rq))
     = [(js ''response_chunk'', chunk_payload)]"
proof -
  have "butlast (split_nl (concat (sr_chunks (broken_before_done rq))))
          = [js ''event: response_chunk'', js ''data: 1'', []]"
    by (simp add: broken_before_done_def js_def)
  then show ?thesis
    unfolding sse_callbacks_lines by (simp add: example_lines)
qed

lemma callbacks_after_done:
  "sse_callbacks events_parse (sr_chunks (broken_after_done rq))
     = [(js ''response_chunk'', chunk_payload), (js ''done'', done_payload)]"
proof -
  have "butlast (split_nl (concat (sr_chunks (broken_after_done rq))))
          = [js ''event: response_chunk'', js ''data: 1'', [], js ''event: done'', js ''data: 2'', []]"
    by (simp add: broken_after_done_def js_def)
  then show ?thesis
    unfolding sse_callbacks_lines by (simp add: example_lines)
qed

lemma plain_answer_no_report: "isReportResponse (Some (js ''ok'')) = Some False"
  by (simp add: isReportResponse_def marker_total_cost_def marker_report_def marker_monthly_def js_def)

text \<open>
  Claim C8, amended.  For an input that is not blank: when the request of \<open>sendMessage\<close>
  throws, the user message appended before it is removed again, so the history is what
  it was before the call, the step is \<open>input\<close>, an error is shown and \<open>loading\<close> is off.
  When the request of \<open>sendMessageStream\<close> throws before any \<open>done\<close> or \<open>complete\<close>
  event has been handled, the history is likewise what it was before the call; and
  whenever that request throws, the step is \<open>input\<close>, an error is shown and \<open>isStreaming\<close>
  is off.
\<close>

theorem failed_send_restores_history:
  fixes input api parse fetch s
  defines "res \<equiv> fetch (sendChatMessageStream_request input (conversationId s) None)"
  assumes "trim input \<noteq> []"
  shows "(api (sendChatMessage_request input (conversationId s) None) = Rejected err \<longrightarrow>
            conversationHistory (sendMessage input api s) = conversationHistory s
            \<and> currentStep (sendMessage input api s) = StepInput
            \<and> error (sendMessage input api s) \<noteq> None
            \<and> \<not> loading (sendMessage input api s))
    \<and> (sr_failure res = Some err
          \<and> (\<forall>c\<in>set (sse_callbacks parse (sr_chunks res)).
                 fst c \<noteq> js ''done'' \<and> fst c \<noteq> js ''complete'') \<longrightarrow>
            conversationHistory (sendMessageStream input parse fetch s) = conversationHistory s)
    \<and> (sr_failure res = Some err \<longrightarrow>
            currentStep (sendMessageStream input parse fetch s) = StepInput
            \<and> error (sendMessageStream input parse fetch s) \<noteq> None
            \<and> \<not> isStreaming (sendMessageStream input parse fetch s))"
proof -
  have a: "conversationHistory (sendMessage input api s) = conversationHistory s
            \<and> currentStep (sendMessage input api s) = StepInput
            \<and> error (sendMessage input api s) \<noteq> None
            \<and> \<not> loading (sendMessage input api s)"
    if "api (sendChatMessage_request input (conversationId s) None) = Rejected err"
    using that assms(2)
    by (auto simp: sendMessage_def Let_def addMessage_def send_catch_def handleError_def)
  let ?s1 = "(addMessage User (Some input)
       (s\<lparr>isStreaming := True, error := None, userInput := input, streamingMessage := [],
           streamingProgress := [], currentToolCalls := []\<rparr>))\<lparr>currentStep := StepChat\<rparr>"
  let ?s2 = "foldl deliver ?s1 (sse_callbacks parse (sr_chunks res))"
  have cid: "conversationId ?s1 = conversationId s" by (simp add: addMessage_def)
  have st: "sendMessageStream input parse fetch s
              = (send_catch send_stream_failed_text err ?s2)\<lparr>isStreaming := False\<rparr>"
    if "sr_failure res = Some err"
    using that assms(2) by (simp add: sendMessageStream_def Let_def addMessage_def res_def)
  have b: "conversationHistory (sendMessageStream input parse fetch s) = conversationHistory s"
    if f: "sr_failure res = Some err"
      and q: "\<forall>c\<in>set (sse_callbacks parse (sr_chunks res)). fst c \<noteq> js ''done'' \<and> fst c \<noteq> js ''complete''"
  proof -
    have "conversationHistory ?s2 = conversationHistory ?s1"
      by (rule fold_other_history [OF q])
    then have "conversationHistory ?s2
        = conversationHistory s @ [\<lparr>msg_role = User, msg_content = Some input\<rparr>]"
      by (simp add: addMessage_def)
    from send_catch_user [OF this] show ?thesis by (simp add: st [OF f])
  qed
  have c: "currentStep (sendMessageStream input parse fetch s) = StepInput
            \<and> error (sendMessageStream input parse fetch s) \<noteq> None
            \<and> \<not> isStreaming (sendMessageStream input parse fetch s)"
    if f: "sr_failure res = Some err"
    using send_catch_step [of send_stream_failed_text err ?s2] by (simp add: st [OF f])
  from a b c show ?thesis by blast
qed

text \<open>A stream that breaks after its first chunk, and a rejected non-streaming request.\<close>

theorem failed_send_restores_history_witness:
  "trim (js ''hi'') \<noteq> []
   \<and> sr_failure (broken_before_done (sendChatMessageStream_request (js ''hi'')
         (conversationId initial_store) None)) = Some network_error
   \<and> sse_callbacks events_parse (sr_chunks (broken_before_done
         (sendChatMessageStream_request (js ''hi'') (conversationId initial_store) None)))
       = [(js ''response_chunk'', chunk_payload)]
   \<and> conversationHistory (sendMessageStream (js ''hi'') events_parse broken_before_done initial_store)
       = conversationHistory initial_store
   \<and> currentStep (sendMessageStream (js ''hi'') events_parse broken_before_done initial_store)
       = StepInput
   \<and> conversationHistory (sendMessage (js ''hi'') (\<lambda>rq. Rejected network_error) initial_store)
       = conversationHistory initial_store
   \<and> currentStep (sendMessage (js ''hi'') (\<lambda>rq. Rejected network_error) initial_store) = StepInput"
proof -
  have t: "trim (js ''hi'') \<noteq> []" by (simp add: trim_plain)
  have f: "sr_failure (broken_before_done rq) = Some network_error" for rq
    by (simp add: broken_before_done_def)
  have q: "\<forall>c\<in>set (sse_callbacks events_parse (sr_chunks (broken_before_done rq))).
             fst c \<noteq> js ''done'' \<and> fst c \<noteq> js ''complete''" for rq
    by (simp add: callbacks_before_done)
  note th = failed_send_restores_history [OF t, where s = initial_store and err = network_error
      and api = "\<lambda>rq. Rejected network_error" and fetch = broken_before_done
      and parse = events_parse]
  from th f q t show ?thesis by (simp add: callbacks_before_done)
qed

text \<open>
  The claim as stated fails for a stream that breaks after its \<open>done\<close> event: the
  assistant message is then the last of the history, the guard of the \<open>catch\<close> block
  (last message of role \<open>user\<close>) removes nothing, and the history has grown by two
  messages although the step went back to \<open>input\<close>.
\<close>

theorem failed_send_counterexample:
  "trim (js ''hi'') \<noteq> []
   \<and> sr_failure (broken_after_done (sendChatMessageStream_request (js ''hi'')
         (conversationId initial_store) None)) = Some network_error
   \<and> conversationHistory initial_store = []
   \<and> conversationHistory (sendMessageStream (js ''hi'') events_parse broken_after_done initial_store)
       = [\<lparr>msg_role = User, msg_content = Some (js ''hi'')\<rparr>,
          \<lparr>msg_role = Assistant, msg_content = Some (js ''ok'')\<rparr>]
   \<and> currentStep (sendMessageStream (js ''hi'') events_parse broken_after_done initial_store)
       = StepInput"
proof -
  have f: "sr_failure (broken_after_done rq) = Some network_error" for rq
    by (simp add: broken_after_done_def)
  have full: "js_or (js_or (Some (js ''ok'')) (d_response done_payload)) (d_message done_payload)
                = Some (js ''ok'')"
    by (simp add: js_or_def)
  show ?thesis
    by (simp add: trim_plain sendMessageStream_def Let_def callbacks_after_done f
        deliver_def handleStreamEvent_def handle_done_def full plain_answer_no_report
        addMessage_def send_catch_def handleError_def network_error_def new_Error_def
        initial_store_def chunk_payload_def done_payload_def no_data_def js_or_def str_or_def)
qed

subsection \<open>Resetting sessions\<close>

text \<open>
  The store of the specification does what the contract says: \<open>reset\<close> with an id
  discards that conversation and no other, \<open>reset\<close> without an id discards all, and an
  id used again after its reset gets a fresh conversation, with counter 0 and no
  messages.  The client's actions, when the request resolves, clear the conversation id
  and the history and go back to the input step.
\<close>

lemma session_store_contract:
  "reset (Some i) st j = (if j = i then None else st j)"
  "reset None st j = None"
  "fst (getOrCreate (Some i) generated (reset (Some i) st)) = (fresh_conversation, i)"
  "conv_iterations fresh_conversation = 0"
  "conv_messages fresh_conversation = []"
  by (simp_all add: reset_def getOrCreate_def fresh_conversation_def)

lemma store_reset_actions:
  "truthy (conversationId s) \<Longrightarrow> post (resetSession_request (the (conversationId s))) = None \<Longrightarrow>
     resetCurrentSession post s
       = s\<lparr>conversationId := None, conversationHistory := [], currentStep := StepInput\<rparr>"
  "post resetAllSessions_request = None \<Longrightarrow>
     resetAllSessions post s
       = s\<lparr>conversationId := None, conversationHistory := [], currentStep := StepInput, sessions := []\<rparr>"
  "\<not> truthy (conversationId s) \<Longrightarrow> resetCurrentSession post s = s"
  by (simp_all add: resetCurrentSession_def resetAllSessions_def initializeSession_def)

text \<open>
  Claim C5.  A reset with a conversation id should reset that conversation only.  The
  request that \<open>resetSession\<close> sends carries the id in its JSON body and has an empty
  query string, and the documented endpoint reads the id from the query string: it takes
  the request for a reset of everything.  In a store with the conversations \<open>conv_a\<close> and
  \<open>conv_b\<close>, the client's reset of \<open>conv_a\<close> also discards \<open>conv_b\<close>, which \<open>reset\<close> with
  the id \<open>conv_a\<close> keeps; the endpoint answers it as it answers \<open>resetAllSessions\<close>.
\<close>

theorem resetSession_resets_all_sessions:
  "hr_query (resetSession_request (js ''conv_a'')) = []
   \<and> hr_body (resetSession_request (js ''conv_a'')) = Some [(js ''conversation_id'', js ''conv_a'')]
   \<and> reset_endpoint (resetSession_request (js ''conv_a'')) example_sessions (js ''conv_b'') = None
   \<and> reset (Some (js ''conv_a'')) example_sessions (js ''conv_b'') = Some answered_conversation
   \<and> reset_endpoint (resetSession_request (js ''conv_a'')) example_sessions
       = reset_endpoint resetAllSessions_request example_sessions"
  by (simp add: resetSession_request_def resetAllSessions_request_def reset_endpoint_def reset_def
      example_sessions_def)

end
